theory Spec2Isabelle
  imports Complex_Main "HOL-Library.Word" "HOL-Library.Log_Nat" "HOL-Library.Signed_Division"
begin

section \<open>C arithmetic used by the program\<close>

text \<open>
  \<^verbatim>\<open>thread_get_slice\<close> computes in \<^verbatim>\<open>double\<close> and \<^verbatim>\<open>rescale_image\<close> in \<^verbatim>\<open>float\<close>. A
  finite floating-point number is modelled by the rational number it denotes, and every
  operation returns the exact result rounded to the format: round to nearest, ties to
  even, with 53 significant bits and gradual underflow below \<open>2\<^sup>-\<^sup>1\<^sup>0\<^sup>2\<^sup>2\<close> for
  \<^verbatim>\<open>double\<close> (binary64), 24 bits and \<open>2\<^sup>-\<^sup>1\<^sup>2\<^sup>6\<close> for \<^verbatim>\<open>float\<close> (binary32). This is
  IEEE 754 arithmetic evaluated without excess precision, as on the platforms that provide
  \<^verbatim>\<open>pthread.h\<close>; \<^verbatim>\<open>long\<close> has 64 bits there. Overflow to infinity is not modelled: the
  operands are \<^verbatim>\<open>long\<close> values and their quotients, so every result is below
  \<open>2\<^sup>1\<^sup>2\<^sup>7\<close>. Division by zero, the one way to leave the finite numbers, is an error
  case where it can occur.
\<close>

definition pow2 :: "int \<Rightarrow> rat" where
  "pow2 e = (if 0 \<le> e then 2 ^ nat e else 1 / 2 ^ nat (- e))"

text \<open>\<open>ilog2 v\<close> is \<open>\<lfloor>log\<^sub>2 v\<rfloor>\<close> for \<open>v > 0\<close>, the binade of \<open>v\<close>.\<close>

definition ilog2 :: "rat \<Rightarrow> int" where
  "ilog2 v = (if 1 \<le> v then bitlen \<lfloor>v\<rfloor> - 1 else - bitlen (\<lceil>1 / v\<rceil> - 1))"

definition round_ties_even :: "rat \<Rightarrow> int" where
  "round_ties_even v =
     (let f = \<lfloor>v\<rfloor>; r = v - of_int f
      in if r < 1 / 2 then f else if 1 / 2 < r then f + 1
         else if even f then f else f + 1)"

text \<open>
  Rounding to a binary format with \<open>prec\<close> significant bits whose least subnormal is
  \<open>2 ^ emin\<close>: \<open>s\<close> is the exponent of the unit in the last place of the result.
\<close>

definition round_binary :: "int \<Rightarrow> int \<Rightarrow> rat \<Rightarrow> rat" where
  "round_binary prec emin v =
     (if v = 0 then 0
      else let s = max (ilog2 \<bar>v\<bar> - (prec - 1)) emin
           in of_int (round_ties_even (v / pow2 s)) * pow2 s)"

definition round_double :: "rat \<Rightarrow> rat" where
  "round_double v = round_binary 53 (- 1074) v"

definition round_float :: "rat \<Rightarrow> rat" where
  "round_float v = round_binary 24 (- 149) v"

definition double_of_long :: "int \<Rightarrow> rat" where
  "double_of_long n = round_double (of_int n)"

definition double_mul :: "rat \<Rightarrow> rat \<Rightarrow> rat" where
  "double_mul a b = round_double (a * b)"

definition double_div :: "rat \<Rightarrow> rat \<Rightarrow> rat" where
  "double_div a b = round_double (a / b)"

text \<open>
  Conversion of a double to \<^verbatim>\<open>long\<close> truncates towards zero; it is undefined when the
  truncated value is not a \<^verbatim>\<open>long\<close> (\<open>None\<close>).
\<close>

definition long_of_double :: "rat \<Rightarrow> int option" where
  "long_of_double d =
     (let t = (if 0 \<le> d then \<lfloor>d\<rfloor> else \<lceil>d\<rceil>)
      in if - (2 ^ 63) \<le> t \<and> t < 2 ^ 63 then Some t else None)"

section \<open>Range partitioning\<close>

text \<open>
  \<^verbatim>\<open>typedef struct { long start; long end; } thread_slice;\<close>
  (the field \<^verbatim>\<open>end\<close> is written \<open>end'\<close>).
\<close>

record thread_slice =
  start :: int
  end' :: int

text \<open>
  \<^verbatim>\<open>
  const double ratio = (double) range / (double) nthreads;
  return (thread_slice) {
      .start = tid * ratio,
      .end   = MIN((tid + 1) * ratio, range)
  };
  \<close>
  with \<^verbatim>\<open>MIN(a, b)\<close> being \<^verbatim>\<open>((a) < (b) ? (a) : (b))\<close>: both branches of the conditional
  are doubles, and the result is converted to \<^verbatim>\<open>long\<close> by the initialisation. With
  \<^verbatim>\<open>nthreads\<close> zero the ratio is an infinity or a NaN, and so is \<^verbatim>\<open>tid * ratio\<close>, whose
  conversion is undefined.
\<close>

definition thread_get_slice :: "int \<Rightarrow> int \<Rightarrow> int \<Rightarrow> thread_slice option" where
  "thread_get_slice tid nthreads rng =
     (if nthreads = 0 then None
      else let ratio = double_div (double_of_long rng) (double_of_long nthreads);
               lo = double_mul (double_of_long tid) ratio;
               hi = double_mul (double_of_long (tid + 1)) ratio;
               r = double_of_long rng
           in case (long_of_double lo, long_of_double (if hi < r then hi else r)) of
                (Some s, Some e) \<Rightarrow> Some \<lparr>start = s, end' = e\<rparr>
              | _ \<Rightarrow> None)"

text \<open>
  The contract of the specification, in exact integer arithmetic:
  \<open>start = \<lfloor>tid \<cdot> rangeLength / totalThreads\<rfloor>\<close> and
  \<open>end = min \<lfloor>(tid + 1) \<cdot> rangeLength / totalThreads\<rfloor> rangeLength\<close>.
\<close>

definition slice_contract :: "int \<Rightarrow> int \<Rightarrow> int \<Rightarrow> thread_slice" where
  "slice_contract threadOrdinal totalThreads rangeLength =
     \<lparr>start = threadOrdinal * rangeLength div totalThreads,
      end' = min ((threadOrdinal + 1) * rangeLength div totalThreads) rangeLength\<rparr>"

section \<open>Images, the environment of the program, errors\<close>

text \<open>
  Modelled from the spec: the declarations of \<^verbatim>\<open>ppm_pixel\<close> and \<^verbatim>\<open>ppm_image\<close>, which
  \<^verbatim>\<open>helpers.h\<close> holds and \<^verbatim>\<open>src/\<close> does not. The specification's PixelBuffer is a
  grid of RGB triples with two dimensions; the code reads the components \<^verbatim>\<open>red\<close>,
  \<^verbatim>\<open>green\<close>, \<^verbatim>\<open>blue\<close> of a pixel as unsigned bytes and the fields \<^verbatim>\<open>x\<close>, \<^verbatim>\<open>y\<close>,
  \<^verbatim>\<open>data\<close> of an image (here \<open>img_x\<close>, \<open>img_y\<close>, \<open>img_data\<close>). \<open>img_data\<close> maps an index
  of the pixel array to the pixel stored there, and to \<open>None\<close> where nothing was stored;
  the array has \<open>img_x * img_y\<close> elements.
\<close>

record ppm_pixel =
  red :: "8 word"
  green :: "8 word"
  blue :: "8 word"

record ppm_image =
  img_x :: int
  img_y :: int
  img_data :: "int \<rightharpoonup> ppm_pixel"

text \<open>
  What the program takes from outside \<^verbatim>\<open>tema1_par.c\<close>:
  the macros \<^verbatim>\<open>RESCALE_X\<close> and \<^verbatim>\<open>RESCALE_Y\<close> and the functions \<^verbatim>\<open>read_ppm\<close> and
  \<^verbatim>\<open>sample_bicubic\<close> of \<^verbatim>\<open>helpers.h\<close> (the arguments \<^verbatim>\<open>u\<close>, \<^verbatim>\<open>v\<close> of the latter are
  floats, modelled by the rationals they denote), and the contents of allocated memory
  that the program has not written: \<^verbatim>\<open>malloc\<close> returns a block with indeterminate
  contents, and a read of an indeterminate \<^verbatim>\<open>unsigned char\<close> yields an unspecified
  value. \<open>heap_cell env i j\<close> is the byte found at \<^verbatim>\<open>grid[i][j]\<close> when the program reads
  it without having written it, \<open>heap_pixel env k\<close> the same for element \<open>k\<close> of a
  pixel array, and \<open>heap_int env\<close> for the fields \<^verbatim>\<open>x\<close> and \<^verbatim>\<open>y\<close> of an allocated
  \<^verbatim>\<open>ppm_image\<close>.
\<close>

record environment =
  RESCALE_X :: int
  RESCALE_Y :: int
  read_ppm :: "string \<Rightarrow> ppm_image"
  sample_bicubic :: "ppm_image \<Rightarrow> rat \<Rightarrow> rat \<Rightarrow> ppm_pixel"
  heap_cell :: "int \<Rightarrow> int \<Rightarrow> 8 word"
  heap_pixel :: "int \<Rightarrow> ppm_pixel"
  heap_int :: int

text \<open>
  Behaviour that C leaves undefined is an error value: an access outside an array, the use
  of a pointer that was never assigned, a conversion from double outside the range of
  \<^verbatim>\<open>long\<close>, a division by zero.
\<close>

datatype error = OutOfBounds | UninitPointer | UndefinedConversion | DivisionByZero

definition bindE :: "error + 'a \<Rightarrow> ('a \<Rightarrow> error + 'b) \<Rightarrow> error + 'b" where
  "bindE m f = (case m of Inl e \<Rightarrow> Inl e | Inr v \<Rightarrow> f v)"

text \<open>
  \<^verbatim>\<open>for (long i = a; i < b; ++i) body\<close> is \<open>for_loop [a..b - 1] body\<close>: the body runs for
  each index in turn and the first error ends the loop.
\<close>

fun for_loop :: "int list \<Rightarrow> (int \<Rightarrow> 's \<Rightarrow> error + 's) \<Rightarrow> 's \<Rightarrow> error + 's" where
  "for_loop [] body s = Inr s"
| "for_loop (i # is) body s = bindE (body i s) (for_loop is body)"

definition get_slice :: "int \<Rightarrow> int \<Rightarrow> int \<Rightarrow> error + thread_slice" where
  "get_slice tid nthreads rng =
     (case thread_get_slice tid nthreads rng of
        None \<Rightarrow> Inl (if nthreads = 0 then DivisionByZero else UndefinedConversion)
      | Some sl \<Rightarrow> Inr sl)"

text \<open>
  \<^verbatim>\<open>image->data[idx]\<close>, read and written. Inside the array a read yields the pixel stored
  there, or the indeterminate contents where none was stored.
\<close>

definition pixel_value :: "environment \<Rightarrow> ppm_image \<Rightarrow> int \<Rightarrow> ppm_pixel" where
  "pixel_value env img idx = (case img_data img idx of None \<Rightarrow> heap_pixel env idx | Some px \<Rightarrow> px)"

definition read_pixel :: "environment \<Rightarrow> ppm_image \<Rightarrow> int \<Rightarrow> error + ppm_pixel" where
  "read_pixel env img idx =
     (if 0 \<le> idx \<and> idx < img_x img * img_y img
      then Inr (pixel_value env img idx)
      else Inl OutOfBounds)"

definition write_pixel :: "ppm_image \<Rightarrow> int \<Rightarrow> ppm_pixel \<Rightarrow> error + ppm_image" where
  "write_pixel img idx px =
     (if 0 \<le> idx \<and> idx < img_x img * img_y img
      then Inr (img\<lparr>img_data := (img_data img)(idx \<mapsto> px)\<rparr>)
      else Inl OutOfBounds)"

section \<open>Grid sampling\<close>

definition STEP :: int where "STEP = 8"
definition SIGMA' :: int where "SIGMA' = 200"
definition CONTOUR_CONFIG_COUNT :: int where "CONTOUR_CONFIG_COUNT = 16"

text \<open>
  \<^verbatim>\<open>unsigned char **grid\<close>: an array of column pointers, each column an array of bytes.
  \<open>g i = None\<close> is a column pointer that was never assigned; in a column, \<open>None\<close> is a byte
  that was never written. The array of pointers is allocated with \<open>p + 1\<close> elements
  (line 214); \<^verbatim>\<open>grid[i] = malloc((q + 1) * sizeof(unsigned char))\<close> is \<open>grid_alloc_column\<close>.
  A column has \<open>q + 1\<close> bytes, and the program indexes it with \<open>0 .. q\<close> only.
\<close>

type_synonym column = "int \<rightharpoonup> 8 word"
type_synonym grid = "int \<rightharpoonup> column"

definition cell :: "grid \<Rightarrow> int \<Rightarrow> int \<Rightarrow> 8 word option" where
  "cell g i j = (case g i of None \<Rightarrow> None | Some col \<Rightarrow> col j)"

text \<open>\<^verbatim>\<open>grid[i][j] = v\<close>\<close>

definition grid_set :: "grid \<Rightarrow> int \<Rightarrow> int \<Rightarrow> 8 word \<Rightarrow> error + grid" where
  "grid_set g i j v =
     (case g i of None \<Rightarrow> Inl UninitPointer | Some col \<Rightarrow> Inr (g(i \<mapsto> col(j \<mapsto> v))))"

text \<open>the value of \<^verbatim>\<open>grid[i][j]\<close>\<close>

definition grid_get :: "environment \<Rightarrow> grid \<Rightarrow> int \<Rightarrow> int \<Rightarrow> error + 8 word" where
  "grid_get env g i j =
     (case g i of None \<Rightarrow> Inl UninitPointer
      | Some col \<Rightarrow> Inr (case col j of None \<Rightarrow> heap_cell env i j | Some v \<Rightarrow> v))"

text \<open>
  \<^verbatim>\<open>
  curr_col = (curr_pix.red + curr_pix.green + curr_pix.blue) / 3;
  grid[i][j] = curr_col <= SIGMA;
  \<close>
  The sum is an \<^verbatim>\<open>int\<close>, \<^verbatim>\<open>curr_col\<close> an \<^verbatim>\<open>unsigned char\<close>.
\<close>

definition curr_col :: "ppm_pixel \<Rightarrow> 8 word" where
  "curr_col curr_pix = word_of_int ((uint (red curr_pix) + uint (green curr_pix) + uint (blue curr_pix)) sdiv 3)"

definition below_sigma :: "ppm_pixel \<Rightarrow> 8 word" where
  "below_sigma curr_pix = (if uint (curr_col curr_pix) \<le> SIGMA' then 1 else 0)"

text \<open>The body of the loop over the columns of the slice (lines 121 to 131).\<close>

definition grid_alloc_column :: "int \<Rightarrow> grid \<Rightarrow> int \<Rightarrow> error + grid" where
  "grid_alloc_column p g i = (if 0 \<le> i \<and> i \<le> p then Inr (g(i \<mapsto> Map.empty)) else Inl OutOfBounds)"

definition sample_column :: "environment \<Rightarrow> ppm_image \<Rightarrow> int \<Rightarrow> int \<Rightarrow> int \<Rightarrow> grid \<Rightarrow> error + grid" where
  "sample_column env img p q i g =
     bindE (grid_alloc_column p g i) (\<lambda>g0.
     bindE (read_pixel env img (i * STEP * img_y img + img_x img - 1)) (\<lambda>curr_pix.
     bindE (grid_set g0 i q (below_sigma curr_pix)) (\<lambda>g1.
     for_loop [0..q - 1] (\<lambda>j g2.
       bindE (read_pixel env img (i * STEP * img_y img + j * STEP)) (\<lambda>curr_pix.
       grid_set g2 i j (below_sigma curr_pix))) g1)))"

text \<open>The task of the thread with the last slice (lines 135 to 143).\<close>

definition sample_last_column :: "environment \<Rightarrow> ppm_image \<Rightarrow> int \<Rightarrow> int \<Rightarrow> grid \<Rightarrow> error + grid" where
  "sample_last_column env img p q g =
     bindE (grid_alloc_column p g p) (\<lambda>g0.
     for_loop [0..q - 1] (\<lambda>j g2.
       bindE (read_pixel env img ((img_x img - 1) * img_y img + j * STEP)) (\<lambda>curr_pix.
       grid_set g2 p j (below_sigma curr_pix))) g0)"

definition sample_grid :: "environment \<Rightarrow> grid \<Rightarrow> ppm_image \<Rightarrow> int \<Rightarrow> int \<Rightarrow> error + grid" where
  "sample_grid env g img tid nthreads =
     (let p = img_x img sdiv STEP; q = img_y img sdiv STEP
      in bindE (get_slice tid nthreads p) (\<lambda>slice.
         bindE (for_loop [start slice..end' slice - 1] (sample_column env img p q) g) (\<lambda>g1.
         if tid = nthreads - 1 then sample_last_column env img p q g1 else Inr g1)))"

section \<open>Marching\<close>

text \<open>
  \<^verbatim>\<open>ppm_image **cmap\<close>: the sixteen glyph pointers; \<open>None\<close> is a pointer never assigned.
  \<^verbatim>\<open>
  k = 8 * grid[i][j] + 4 * grid[i][j + 1] + 2 * grid[i + 1][j + 1] + grid[i + 1][j];
  \<close>
  is computed in \<^verbatim>\<open>int\<close> and stored in the \<^verbatim>\<open>unsigned char k\<close>.
\<close>

type_synonym cmap = "int \<rightharpoonup> ppm_image"

definition march_index :: "environment \<Rightarrow> grid \<Rightarrow> int \<Rightarrow> int \<Rightarrow> error + 8 word" where
  "march_index env g i j =
     bindE (grid_get env g i j) (\<lambda>a.
     bindE (grid_get env g i (j + 1)) (\<lambda>b.
     bindE (grid_get env g (i + 1) (j + 1)) (\<lambda>c.
     bindE (grid_get env g (i + 1) j) (\<lambda>d.
     Inr (word_of_int (8 * uint a + 4 * uint b + 2 * uint c + uint d))))))"

definition cmap_get :: "cmap \<Rightarrow> 8 word \<Rightarrow> error + ppm_image" where
  "cmap_get cm k =
     (if uint k < CONTOUR_CONFIG_COUNT
      then (case cm (uint k) of None \<Rightarrow> Inl UninitPointer | Some c \<Rightarrow> Inr c)
      else Inl OutOfBounds)"

text \<open>
  \<^verbatim>\<open>
  for (int i = 0; i < c->x; ++i) {
      for (int j = 0; j < c->y; ++j) {
          idx_c = c->x * i + j;
          idx_i = (x + i) * image->y + y + j;
          image->data[idx_i].red   = c->data[idx_c].red;  (green and blue likewise)
  \<close>
  The indices are \<^verbatim>\<open>int\<close>; an image that reaches this stage has at most
  \<^verbatim>\<open>RESCALE_X * RESCALE_Y\<close> pixels, far below the range of \<^verbatim>\<open>int\<close>.
\<close>

definition march_update :: "environment \<Rightarrow> ppm_image \<Rightarrow> ppm_image \<Rightarrow> int \<Rightarrow> int \<Rightarrow> error + ppm_image" where
  "march_update env img c x0 y0 =
     for_loop [0..img_x c - 1] (\<lambda>i img1.
       for_loop [0..img_y c - 1] (\<lambda>j img2.
         bindE (read_pixel env c (img_x c * i + j)) (\<lambda>px.
         write_pixel img2 ((x0 + i) * img_y img2 + y0 + j) px)) img1) img"

definition march_cell :: "environment \<Rightarrow> grid \<Rightarrow> cmap \<Rightarrow> int \<Rightarrow> int \<Rightarrow> ppm_image \<Rightarrow> error + ppm_image" where
  "march_cell env g cm i j img =
     bindE (march_index env g i j) (\<lambda>k.
     bindE (cmap_get cm k) (\<lambda>c.
     march_update env img c (i * STEP) (j * STEP)))"

definition march :: "environment \<Rightarrow> ppm_image \<Rightarrow> grid \<Rightarrow> cmap \<Rightarrow> int \<Rightarrow> int \<Rightarrow> error + ppm_image" where
  "march env img g cm tid nthreads =
     (let p = img_x img sdiv STEP; q = img_y img sdiv STEP
      in bindE (get_slice tid nthreads p) (\<lambda>slice.
         for_loop [start slice..end' slice - 1] (\<lambda>i img1.
           for_loop [0..q - 1] (\<lambda>j. march_cell env g cm i j) img1) img))"

section \<open>Rescaling and the glyph table\<close>

text \<open>
  \<^verbatim>\<open>shared->image\<close> and \<^verbatim>\<open>shared->scaled\<close> are pointers, and the program lets the second
  be the first when the image is small: images live in a store, at addresses.
  \<^verbatim>\<open>rescale_image(image, scaled, tid, nthreads)\<close> takes the two pointers and acts on the
  store. The quotients \<^verbatim>\<open>(float)(i / RESCALE_Y) / (RESCALE_X - 1)\<close> are float divisions;
  with a divisor of zero they are infinities or NaNs, which the model of floats does not
  hold (\<open>DivisionByZero\<close>).
\<close>

type_synonym addr = nat
type_synonym store = "addr \<rightharpoonup> ppm_image"

definition float_div :: "rat \<Rightarrow> rat \<Rightarrow> error + rat" where
  "float_div a b = (if b = 0 then Inl DivisionByZero else Inr (round_float (a / b)))"

definition rescale_pixel :: "environment \<Rightarrow> addr \<Rightarrow> addr \<Rightarrow> int \<Rightarrow> store \<Rightarrow> error + store" where
  "rescale_pixel env src scaled i h =
     (case (h src, h scaled) of
        (Some img, Some sc) \<Rightarrow>
          bindE (float_div (round_float (of_int (i sdiv RESCALE_Y env)))
                   (round_float (of_int (RESCALE_X env - 1)))) (\<lambda>u.
          bindE (float_div (round_float (of_int (i smod RESCALE_Y env)))
                   (round_float (of_int (RESCALE_Y env - 1)))) (\<lambda>v.
          bindE (write_pixel sc i (sample_bicubic env img u v)) (\<lambda>sc1.
          Inr (h(scaled \<mapsto> sc1)))))
      | _ \<Rightarrow> Inl UninitPointer)"

definition rescale_image :: "environment \<Rightarrow> addr \<Rightarrow> addr \<Rightarrow> int \<Rightarrow> int \<Rightarrow> store \<Rightarrow> error + store" where
  "rescale_image env src scaled tid nthreads h =
     (case h src of
        None \<Rightarrow> Inl UninitPointer
      | Some img \<Rightarrow>
          if img_x img \<le> RESCALE_X env \<and> img_y img \<le> RESCALE_Y env then Inr h
          else (case h scaled of
                  None \<Rightarrow> Inl UninitPointer
                | Some sc \<Rightarrow>
                    let h1 = h(scaled \<mapsto> sc\<lparr>img_x := RESCALE_X env, img_y := RESCALE_Y env\<rparr>)
                    in bindE (get_slice tid nthreads (RESCALE_X env * RESCALE_Y env)) (\<lambda>slice.
                       for_loop [start slice..end' slice - 1] (rescale_pixel env src scaled) h1)))"

text \<open>\<^verbatim>\<open>sprintf(filename, "./contours/%ld.ppm", i)\<close>\<close>

fun decimal :: "nat \<Rightarrow> string" where
  "decimal n = (if n < 10 then [char_of (48 + n)] else decimal (n div 10) @ [char_of (48 + n mod 10)])"

definition contour_filename :: "int \<Rightarrow> string" where
  "contour_filename i =
     ''./contours/'' @ (if i < 0 then CHR ''-'' # decimal (nat (- i)) else decimal (nat i)) @ ''.ppm''"

definition init_cmap :: "environment \<Rightarrow> cmap \<Rightarrow> int \<Rightarrow> int \<Rightarrow> error + cmap" where
  "init_cmap env cm tid nthreads =
     bindE (get_slice tid nthreads CONTOUR_CONFIG_COUNT) (\<lambda>slice.
     for_loop [start slice..end' slice - 1] (\<lambda>i cm1.
       if 0 \<le> i \<and> i < CONTOUR_CONFIG_COUNT
       then Inr (cm1(i \<mapsto> read_ppm env (contour_filename i)))
       else Inl OutOfBounds) cm)"

section \<open>The worker and the pipeline\<close>

text \<open>
  \<^verbatim>\<open>thread_data_shared\<close> (fields prefixed with \<open>sh_\<close>; the locks and barriers have no
  data). A null pointer is \<open>None\<close>. The state of the program is the shared structure, the
  store of images, and the files \<^verbatim>\<open>write_ppm\<close> has written.
\<close>

record thread_data_shared =
  sh_image :: "addr option"
  sh_scaled :: "addr option"
  sh_cmap :: "cmap option"
  sh_grid :: "grid option"
  sh_nthreads :: int
  sh_filename_in :: string
  sh_filename_out :: string
  sh_finished :: int

record machine =
  shared :: thread_data_shared
  objects :: store
  files :: "string \<rightharpoonup> ppm_image"

text \<open>
  Lines 191 to 201. \<^verbatim>\<open>read_ppm\<close> returns a new image, at address 0; the image allocated
  for the scaled copy is at address 1, its fields indeterminate and its pixel array unwritten.
\<close>

definition image_read :: "environment \<Rightarrow> machine \<Rightarrow> machine" where
  "image_read env m =
     (if sh_image (shared m) = None
      then let img = read_ppm env (sh_filename_in (shared m))
           in if img_x img \<le> RESCALE_X env \<and> img_y img \<le> RESCALE_Y env
              then m\<lparr>objects := (objects m)(0 \<mapsto> img),
                     shared := (shared m)\<lparr>sh_image := Some 0, sh_scaled := Some 0\<rparr>\<rparr>
              else m\<lparr>objects := (objects m)(0 \<mapsto> img,
                        1 \<mapsto> \<lparr>img_x = heap_int env, img_y = heap_int env, img_data = Map.empty\<rparr>),
                     shared := (shared m)\<lparr>sh_image := Some 0, sh_scaled := Some 1\<rparr>\<rparr>
      else m)"

text \<open>Lines 202 to 206.\<close>

definition cmap_alloc :: "machine \<Rightarrow> machine" where
  "cmap_alloc m =
     (if sh_cmap (shared m) = None then m\<lparr>shared := (shared m)\<lparr>sh_cmap := Some Map.empty\<rparr>\<rparr> else m)"

text \<open>Lines 212 to 216; the size of the allocation reads \<^verbatim>\<open>shared->scaled->x\<close>.\<close>

definition grid_alloc :: "machine \<Rightarrow> error + machine" where
  "grid_alloc m =
     (if sh_grid (shared m) = None
      then (case sh_scaled (shared m) of
              None \<Rightarrow> Inl UninitPointer
            | Some a \<Rightarrow> (case objects m a of
                None \<Rightarrow> Inl UninitPointer
              | Some sc \<Rightarrow> Inr (m\<lparr>shared := (shared m)\<lparr>sh_grid := Some Map.empty\<rparr>\<rparr>)))
      else Inr m)"

text \<open>Lines 226 to 231.\<close>

definition write_once :: "machine \<Rightarrow> error + machine" where
  "write_once m =
     (if sh_finished (shared m) = 0
      then (case sh_scaled (shared m) of
              None \<Rightarrow> Inl UninitPointer
            | Some a \<Rightarrow> (case objects m a of
                None \<Rightarrow> Inl UninitPointer
              | Some sc \<Rightarrow> Inr (m\<lparr>shared := (shared m)\<lparr>sh_finished := 1\<rparr>,
                                  files := (files m)(sh_filename_out (shared m) \<mapsto> sc)\<rparr>)))
      else Inr m)"

text \<open>
  The five barriers cut \<^verbatim>\<open>worker\<close> into six parts; \<open>worker_part n env tid\<close> is what thread
  \<open>tid\<close> does in part \<open>n\<close>, from one barrier to the next.
\<close>

definition worker_rescale :: "environment \<Rightarrow> int \<Rightarrow> machine \<Rightarrow> error + machine" where
  "worker_rescale env tid m =
     (case (sh_image (shared m), sh_scaled (shared m)) of
        (Some src, Some scaled) \<Rightarrow>
          bindE (rescale_image env src scaled tid (sh_nthreads (shared m)) (objects m)) (\<lambda>h.
          Inr (m\<lparr>objects := h\<rparr>))
      | _ \<Rightarrow> Inl UninitPointer)"

definition worker_init_cmap :: "environment \<Rightarrow> int \<Rightarrow> machine \<Rightarrow> error + machine" where
  "worker_init_cmap env tid m =
     (case sh_cmap (shared m) of
        None \<Rightarrow> Inl UninitPointer
      | Some cm \<Rightarrow>
          bindE (init_cmap env cm tid (sh_nthreads (shared m))) (\<lambda>cm1.
          Inr (m\<lparr>shared := (shared m)\<lparr>sh_cmap := Some cm1\<rparr>\<rparr>)))"

definition worker_sample_grid :: "environment \<Rightarrow> int \<Rightarrow> machine \<Rightarrow> error + machine" where
  "worker_sample_grid env tid m =
     (case (sh_grid (shared m), sh_scaled (shared m)) of
        (Some g, Some a) \<Rightarrow>
          (case objects m a of
             None \<Rightarrow> Inl UninitPointer
           | Some sc \<Rightarrow>
               bindE (sample_grid env g sc tid (sh_nthreads (shared m))) (\<lambda>g1.
               Inr (m\<lparr>shared := (shared m)\<lparr>sh_grid := Some g1\<rparr>\<rparr>)))
      | _ \<Rightarrow> Inl UninitPointer)"

definition worker_march :: "environment \<Rightarrow> int \<Rightarrow> machine \<Rightarrow> error + machine" where
  "worker_march env tid m =
     (case (sh_scaled (shared m), sh_grid (shared m), sh_cmap (shared m)) of
        (Some a, Some g, Some cm) \<Rightarrow>
          (case objects m a of
             None \<Rightarrow> Inl UninitPointer
           | Some sc \<Rightarrow>
               bindE (march env sc g cm tid (sh_nthreads (shared m))) (\<lambda>sc1.
               Inr (m\<lparr>objects := (objects m)(a \<mapsto> sc1)\<rparr>)))
      | _ \<Rightarrow> Inl UninitPointer)"

fun worker_part :: "nat \<Rightarrow> environment \<Rightarrow> int \<Rightarrow> machine \<Rightarrow> error + machine" where
  "worker_part 0 env tid m = Inr (cmap_alloc (image_read env m))"
| "worker_part (Suc 0) env tid m = worker_rescale env tid m"
| "worker_part (Suc (Suc 0)) env tid m = bindE (grid_alloc m) (worker_init_cmap env tid)"
| "worker_part (Suc (Suc (Suc 0))) env tid m = worker_sample_grid env tid m"
| "worker_part (Suc (Suc (Suc (Suc 0)))) env tid m = worker_march env tid m"
| "worker_part n env tid m = write_once m"

text \<open>
  \<^verbatim>\<open>main\<close>: the shared structure comes from \<^verbatim>\<open>calloc\<close>, so every pointer is null and
  \<^verbatim>\<open>finished\<close> is 0; \<open>nthreads\<close> threads run \<^verbatim>\<open>worker\<close> with \<open>tid = 0 .. nthreads - 1\<close>.
  No thread passes a barrier before all have reached it, so all threads finish a part
  before any starts the next one. Within a part the model runs the threads one after the
  other in the order of their \<open>tid\<close>, which is one of the schedules the program has.
  The result is the state after the last part; the output image is the file written
  under \<^verbatim>\<open>filename_out\<close>.
\<close>

definition initial_machine :: "string \<Rightarrow> string \<Rightarrow> int \<Rightarrow> machine" where
  "initial_machine file_in file_out n =
     \<lparr>shared = \<lparr>sh_image = None, sh_scaled = None, sh_cmap = None, sh_grid = None,
                 sh_nthreads = n, sh_filename_in = file_in, sh_filename_out = file_out,
                 sh_finished = 0\<rparr>,
      objects = Map.empty, files = Map.empty\<rparr>"

definition run_part :: "nat \<Rightarrow> environment \<Rightarrow> machine \<Rightarrow> error + machine" where
  "run_part n env m = for_loop [0..sh_nthreads (shared m) - 1] (worker_part n env) m"

definition pipeline :: "environment \<Rightarrow> string \<Rightarrow> string \<Rightarrow> int \<Rightarrow> error + machine" where
  "pipeline env file_in file_out n =
     bindE (run_part 0 env (initial_machine file_in file_out n)) (\<lambda>m1.
     bindE (run_part 1 env m1) (\<lambda>m2.
     bindE (run_part 2 env m2) (\<lambda>m3.
     bindE (run_part 3 env m3) (\<lambda>m4.
     bindE (run_part 4 env m4) (\<lambda>m5.
     run_part 5 env m5)))))"

definition output_image :: "string \<Rightarrow> error + machine \<Rightarrow> ppm_image option" where
  "output_image file_out r = (case r of Inl e \<Rightarrow> None | Inr m \<Rightarrow> files m file_out)"

section \<open>Reading the results\<close>

text \<open>
  \<open>pixel_at img a b\<close> is the pixel at coordinate \<open>(a, b)\<close>, in the addressing \<^verbatim>\<open>data[a * image->y + b]\<close> that
  \<^verbatim>\<open>sample_grid\<close> uses for its samples \<open>(i * STEP, j * STEP)\<close> and \<^verbatim>\<open>march_update\<close> for
  the destination \<open>(x + i, y + j)\<close>.
\<close>

definition pixel_at :: "ppm_image \<Rightarrow> int \<Rightarrow> int \<Rightarrow> ppm_pixel option" where
  "pixel_at img a b = img_data img (a * img_y img + b)"

definition cell_of :: "error + grid \<Rightarrow> int \<Rightarrow> int \<Rightarrow> 8 word option" where
  "cell_of r i j = (case r of Inl e \<Rightarrow> None | Inr g \<Rightarrow> cell g i j)"

definition index_of :: "environment \<Rightarrow> error + grid \<Rightarrow> int \<Rightarrow> int \<Rightarrow> error + 8 word" where
  "index_of env r i j = bindE r (\<lambda>g. march_index env g i j)"

text \<open>What \<^verbatim>\<open>march\<close> returns on the grid that the sampling stage returned.\<close>

definition marched :: "environment \<Rightarrow> ppm_image \<Rightarrow> cmap \<Rightarrow> int \<Rightarrow> int \<Rightarrow> error + grid \<Rightarrow> error + ppm_image" where
  "marched env img cm tid nthreads r = bindE r (\<lambda>g. march env img g cm tid nthreads)"

definition pixel_of :: "error + ppm_image \<Rightarrow> int \<Rightarrow> int \<Rightarrow> ppm_pixel option" where
  "pixel_of r a b = (case r of Inl e \<Rightarrow> None | Inr img \<Rightarrow> pixel_at img a b)"

definition error_of :: "error + 'a \<Rightarrow> error option" where
  "error_of r = (case r of Inl e \<Rightarrow> Some e | Inr v \<Rightarrow> None)"

definition output_pixel :: "string \<Rightarrow> error + machine \<Rightarrow> int \<Rightarrow> int \<Rightarrow> ppm_pixel option" where
  "output_pixel file_out r a b =
     (case output_image file_out r of None \<Rightarrow> None | Some img \<Rightarrow> pixel_at img a b)"

text \<open>
  \<open>sampled_grid env img\<close> is the grid that a single thread leaves behind, in closed form; that
  \<^verbatim>\<open>sample_grid\<close> computes it is the lemma \<open>sample_grid_one_thread\<close>. Every cell but the
  corner \<open>(p, q)\<close> is present.
\<close>

definition sampled_grid :: "environment \<Rightarrow> ppm_image \<Rightarrow> grid" where
  "sampled_grid env img =
     (let x = img_x img; y = img_y img; p = x sdiv STEP; q = y sdiv STEP
      in (\<lambda>i. if 0 \<le> i \<and> i < p
               then Some (\<lambda>j. if 0 \<le> j \<and> j < q
                               then Some (below_sigma (pixel_value env img (i * STEP * y + j * STEP)))
                               else if j = q
                               then Some (below_sigma (pixel_value env img (i * STEP * y + x - 1)))
                               else None)
               else if i = p
               then Some (\<lambda>j. if 0 \<le> j \<and> j < q
                               then Some (below_sigma (pixel_value env img ((x - 1) * y + j * STEP)))
                               else None)
               else None))"

section \<open>Concrete inputs\<close>

text \<open>
  Images of one colour, and images whose pixel \<open>k\<close> carries \<open>k\<close> in its green component
  and a tag in its red one, so that every pixel of a glyph can be told from every other.
  \<open>test_env input junk\<close> is an environment in which \<^verbatim>\<open>in.ppm\<close> decodes to \<open>input\<close>, the
  contour file \<open>k\<close> decodes to an 8 by 8 glyph tagged \<open>k\<close>, the target resolution is 2048
  by 2048, and every unwritten byte that is read holds \<open>junk\<close>.
\<close>

definition black :: ppm_pixel where
  "black = \<lparr>red = 0, green = 0, blue = 0\<rparr>"

definition white :: ppm_pixel where
  "white = \<lparr>red = 255, green = 255, blue = 255\<rparr>"

definition solid_image :: "int \<Rightarrow> int \<Rightarrow> ppm_pixel \<Rightarrow> ppm_image" where
  "solid_image w h px =
     \<lparr>img_x = w, img_y = h, img_data = (\<lambda>k. if 0 \<le> k \<and> k < w * h then Some px else None)\<rparr>"

definition numbered_image :: "int \<Rightarrow> int \<Rightarrow> int \<Rightarrow> ppm_image" where
  "numbered_image w h tag =
     \<lparr>img_x = w, img_y = h,
      img_data = (\<lambda>k. if 0 \<le> k \<and> k < w * h
                       then Some \<lparr>red = word_of_int tag, green = word_of_int k, blue = 0\<rparr>
                       else None)\<rparr>"

definition test_read_ppm :: "ppm_image \<Rightarrow> string \<Rightarrow> ppm_image" where
  "test_read_ppm input name =
     (if name = ''in.ppm'' then input
      else case List.find (\<lambda>k. contour_filename k = name) [0..15] of
             Some k \<Rightarrow> numbered_image 8 8 k
           | None \<Rightarrow> solid_image 0 0 black)"

definition test_env :: "ppm_image \<Rightarrow> 8 word \<Rightarrow> environment" where
  "test_env input junk =
     \<lparr>RESCALE_X = 2048, RESCALE_Y = 2048, read_ppm = test_read_ppm input,
      sample_bicubic = (\<lambda>img u v. black), heap_cell = (\<lambda>i j. junk),
      heap_pixel = (\<lambda>k. black), heap_int = 0\<rparr>"

text \<open>The glyph table that \<^verbatim>\<open>init_cmap\<close> builds in \<open>test_env\<close>: glyph \<open>k\<close> is 8 by 8 and tagged \<open>k\<close>.\<close>

definition test_cmap :: cmap where
  "test_cmap = (\<lambda>k. if 0 \<le> k \<and> k < 16 then Some (numbered_image 8 8 k) else None)"

text \<open>
  An image 8 wide and 16 high, white but for the pixel at index 15, the coordinate
  \<open>(0, 15)\<close>, which is black.
\<close>

definition tall_image :: ppm_image where
  "tall_image = \<lparr>img_x = 8, img_y = 16, img_data = (img_data (solid_image 8 16 white))(15 \<mapsto> black)\<rparr>"

text \<open>A white image 16 wide and 1 high: two grid columns, no interior row.\<close>

definition wide_image :: ppm_image where
  "wide_image = solid_image 16 1 white"

text \<open>
  The black image of 8 by 8 pixels, and the states that a run of 49 threads on it passes
  through: both image pointers at address 0, which holds the image.
\<close>

definition black8 :: ppm_image where
  "black8 = solid_image 8 8 black"

definition idle_machine :: "cmap option \<Rightarrow> grid option \<Rightarrow> int \<Rightarrow> (string \<rightharpoonup> ppm_image) \<Rightarrow> machine" where
  "idle_machine cm g fin fs =
     \<lparr>shared = \<lparr>sh_image = Some 0, sh_scaled = Some 0, sh_cmap = cm, sh_grid = g,
                 sh_nthreads = 49, sh_filename_in = ''in.ppm'', sh_filename_out = ''out.ppm'',
                 sh_finished = fin\<rparr>,
      objects = Map.empty(0 \<mapsto> black8), files = fs\<rparr>"

text \<open>A grid of two columns whose four cells are 0, and a glyph table whose glyph 0 is 2 by 3.\<close>

definition zero_grid :: grid where
  "zero_grid = (\<lambda>i. if i = 0 \<or> i = 1 then Some (\<lambda>j. if j = 0 \<or> j = 1 then Some 0 else None) else None)"

definition oblong_cmap :: cmap where
  "oblong_cmap = Map.empty(0 \<mapsto> numbered_image 2 3 0)"

section \<open>Conversions that are exact\<close>

text \<open>
  An integer below \<open>2\<^sup>5\<^sup>3\<close> in magnitude is a double, so its conversion does not round.
  The end of a slice is therefore at most the range, and the one slice of a single thread
  is the whole range.
\<close>

lemma round_ties_even_of_int: "round_ties_even (of_int k) = k"
  by (simp add: round_ties_even_def)

lemma pow2_pos: "0 < pow2 e"
  by (simp add: pow2_def)

lemma ilog2_of_int: "1 \<le> a \<Longrightarrow> ilog2 (of_int a) = bitlen a - 1"
  by (simp add: ilog2_def)

lemma round_binary_of_int:
  assumes "\<bar>n\<bar> < 2 ^ nat prec" "emin \<le> 0" "0 < prec"
  shows "round_binary prec emin (of_int n) = of_int n"
proof (cases "n = 0")
  case True
  then show ?thesis by (simp add: round_binary_def)
next
  case False
  define s where "s = max (ilog2 \<bar>of_int n\<bar> - (prec - 1)) emin"
  have "1 \<le> \<bar>n\<bar>" using False by simp
  then have il: "ilog2 \<bar>of_int n :: rat\<bar> = bitlen \<bar>n\<bar> - 1"
    using ilog2_of_int [of "\<bar>n\<bar>"] by simp
  have "bitlen \<bar>n\<bar> \<le> prec"
    using assms by (simp add: bitlen_le_iff_power)
  then have s0: "s \<le> 0" using assms by (simp add: s_def il)
  then have p: "pow2 s = 1 / 2 ^ nat (- s)"
    by (cases "s = 0") (simp_all add: pow2_def)
  have "(of_int n :: rat) / pow2 s = of_int (n * 2 ^ nat (- s))"
    by (simp add: p)
  then have "rat_of_int (round_ties_even (of_int n / pow2 s)) * pow2 s = of_int n"
    by (simp only: round_ties_even_of_int) (simp add: p)
  then show ?thesis
    using False by (simp add: round_binary_def Let_def s_def)
qed

lemma double_of_long_exact: "\<bar>n\<bar> < 2 ^ 53 \<Longrightarrow> double_of_long n = of_int n"
  using round_binary_of_int [of n 53 "- 1074"] by (simp add: double_of_long_def round_double_def)

lemma long_of_double_le:
  assumes "long_of_double d = Some e" "d \<le> of_int n"
  shows "e \<le> n"
proof -
  have "\<lfloor>d\<rfloor> \<le> \<lfloor>rat_of_int n\<rfloor>" using assms(2) by (rule floor_mono)
  then have "\<lfloor>d\<rfloor> \<le> n" by simp
  moreover have "\<lceil>d\<rceil> \<le> n" using assms(2) by (simp add: ceiling_le_iff)
  ultimately show ?thesis
    using assms(1) by (auto simp: long_of_double_def Let_def split: if_splits)
qed

lemma thread_get_slice_end_le:
  assumes "thread_get_slice tid nthreads rng = Some sl" "\<bar>rng\<bar> < 2 ^ 53"
  shows "end' sl \<le> rng"
proof -
  define ratio where "ratio = double_div (double_of_long rng) (double_of_long nthreads)"
  define hi where "hi = double_mul (double_of_long (tid + 1)) ratio"
  define v where "v = (if hi < of_int rng then hi else of_int rng)"
  have "v \<le> of_int rng" by (simp add: v_def)
  moreover have "long_of_double v = Some (end' sl)"
    using assms
    by (auto simp: thread_get_slice_def Let_def double_of_long_exact v_def hi_def ratio_def
        split: if_splits option.splits)
  ultimately show ?thesis by (rule long_of_double_le [rotated])
qed

lemma thread_get_slice_single:
  assumes "0 \<le> rng" "rng < 2 ^ 53"
  shows "thread_get_slice 0 1 rng = Some \<lparr>start = 0, end' = rng\<rparr>"
proof -
  have r: "double_of_long rng = of_int rng" using assms by (simp add: double_of_long_exact)
  have one: "double_of_long 1 = 1" using double_of_long_exact [of 1] by simp
  have zero: "double_of_long 0 = 0" using double_of_long_exact [of 0] by simp
  have rr: "round_double (of_int rng) = of_int rng" using r by (simp add: double_of_long_def)
  have z: "round_double 0 = 0" by (simp add: round_double_def round_binary_def)
  have "long_of_double (of_int rng) = Some rng"
    using assms by (simp add: long_of_double_def Let_def)
  moreover have "long_of_double 0 = Some 0" by (simp add: long_of_double_def)
  ultimately show ?thesis
    by (simp add: thread_get_slice_def Let_def r one zero double_div_def double_mul_def rr z)
qed

section \<open>Loops\<close>

lemma bindE_Inr: "bindE m f = Inr r \<longleftrightarrow> (\<exists>v. m = Inr v \<and> f v = Inr r)"
  by (cases m) (simp_all add: bindE_def)

lemma for_loop_invariant:
  assumes "for_loop is body s = Inr s'" "I s"
    and "\<And>i t t'. i \<in> set is \<Longrightarrow> I t \<Longrightarrow> body i t = Inr t' \<Longrightarrow> I t'"
  shows "I s'"
  using assms
proof (induction "is" arbitrary: s)
  case Nil
  then show ?case by simp
next
  case (Cons i "is")
  from Cons.prems(1) obtain t where t: "body i s = Inr t" "for_loop is body t = Inr s'"
    by (auto simp: bindE_Inr)
  have "I t" using Cons.prems(2) Cons.prems(3) [of i s t] t(1) by simp
  show ?case
    by (rule Cons.IH [OF t(2) \<open>I t\<close>]) (use Cons.prems(3) in auto)
qed

lemma for_loop_upto:
  assumes "lo \<le> hi + 1" "I lo s"
    and "\<And>i t. lo \<le> i \<Longrightarrow> i \<le> hi \<Longrightarrow> I i t \<Longrightarrow> \<exists>t'. body i t = Inr t' \<and> I (i + 1) t'"
  shows "\<exists>s'. for_loop [lo..hi] body s = Inr s' \<and> I (hi + 1) s'"
  using assms
proof (induction "nat (hi + 1 - lo)" arbitrary: lo s)
  case 0
  then have "lo = hi + 1" by simp
  then show ?case using "0.prems"(2) by simp
next
  case (Suc m)
  then have le: "lo \<le> hi" by simp
  from Suc.prems(3) [OF _ le Suc.prems(2)] obtain t where
    t: "body lo s = Inr t" "I (lo + 1) t" by auto
  have "\<exists>s'. for_loop [lo + 1..hi] body t = Inr s' \<and> I (hi + 1) s'"
  proof (rule Suc.hyps(1))
    show "m = nat (hi + 1 - (lo + 1))" using Suc.hyps(2) by simp
    show "lo + 1 \<le> hi + 1" using le by simp
    show "I (lo + 1) t" by (rule t(2))
    show "\<exists>t'. body i u = Inr t' \<and> I (i + 1) t'" if "lo + 1 \<le> i" "i \<le> hi" "I i u" for i u
      using Suc.prems(3) [of i u] that by simp
  qed
  then show ?case using t(1) le by (simp add: upto_rec1 [of lo hi] bindE_def)
qed

section \<open>What the sampling stage leaves unwritten\<close>

lemma grid_set_other: "grid_set g i j v = Inr g' \<Longrightarrow> k \<noteq> i \<Longrightarrow> g' k = g k"
  by (auto simp: grid_set_def split: option.splits)


lemma sample_column_other:
  assumes "sample_column env img p q i g = Inr g'" "k \<noteq> i"
  shows "g' k = g k"
proof -
  from assms(1) obtain g0 px g1 where
    g0: "grid_alloc_column p g i = Inr g0"
    and g1: "grid_set g0 i q (below_sigma px) = Inr g1"
    and loop: "for_loop [0..q - 1] (\<lambda>j g2.
       bindE (read_pixel env img (i * STEP * img_y img + j * STEP)) (\<lambda>curr_pix.
       grid_set g2 i j (below_sigma curr_pix))) g1 = Inr g'"
    unfolding sample_column_def bindE_Inr by blast
  have "g0 k = g k" using g0 assms(2) by (auto simp: grid_alloc_column_def split: if_splits)
  then have "g1 k = g k" using grid_set_other [OF g1 assms(2)] by simp
  with loop show ?thesis
    by (rule for_loop_invariant [where I = "\<lambda>t. t k = g k"])
       (auto simp: bindE_Inr dest: grid_set_other [OF _ assms(2)])
qed

lemma sample_last_column_corner:
  assumes "sample_last_column env img p q g = Inr g'"
  shows "cell g' p q = None \<and> g' p \<noteq> None"
proof -
  from assms obtain g0 where
    g0: "grid_alloc_column p g p = Inr g0"
    and loop: "for_loop [0..q - 1] (\<lambda>j g2.
       bindE (read_pixel env img ((img_x img - 1) * img_y img + j * STEP)) (\<lambda>curr_pix.
       grid_set g2 p j (below_sigma curr_pix))) g0 = Inr g'"
    unfolding sample_last_column_def bindE_Inr by blast
  have "cell g0 p q = None \<and> g0 p \<noteq> None"
    using g0 by (auto simp: grid_alloc_column_def cell_def split: if_splits)
  with loop show ?thesis
    by (rule for_loop_invariant [where I = "\<lambda>t. cell t p q = None \<and> t p \<noteq> None"])
       (auto simp: bindE_Inr grid_set_def cell_def split: option.splits)
qed

lemma sdiv_nonneg: "0 \<le> a \<Longrightarrow> 0 < b \<Longrightarrow> a sdiv b = a div (b :: int)"
  by (simp add: signed_divide_int_def sgn_if)

lemma sample_grid_corner:
  assumes "sample_grid env g img tid nthreads = Inr g'"
    and "cell g (img_x img sdiv STEP) (img_y img sdiv STEP) = None"
    and "0 \<le> img_x img" "img_x img < 2 ^ 31"
  shows "cell g' (img_x img sdiv STEP) (img_y img sdiv STEP) = None"
proof -
  define p where "p = img_x img sdiv STEP"
  define q where "q = img_y img sdiv STEP"
  have "p = img_x img div 8" using assms(3) by (simp add: p_def STEP_def sdiv_nonneg)
  then have pb: "\<bar>p\<bar> < 2 ^ 53" using assms(3,4) by simp
  from assms(1) obtain slice g1 where
    sl: "get_slice tid nthreads p = Inr slice"
    and loop: "for_loop [start slice..end' slice - 1] (sample_column env img p q) g = Inr g1"
    and last: "(if tid = nthreads - 1 then sample_last_column env img p q g1 else Inr g1) = Inr g'"
    unfolding sample_grid_def Let_def bindE_Inr p_def q_def by blast
  from sl have "thread_get_slice tid nthreads p = Some slice"
    by (auto simp: get_slice_def split: option.splits)
  then have e: "end' slice \<le> p" using pb by (rule thread_get_slice_end_le)
  have "cell g p q = None" using assms(2) by (simp add: p_def q_def)
  with loop have "cell g1 p q = None"
  proof (rule for_loop_invariant [where I = "\<lambda>t. cell t p q = None"])
    fix i t t'
    assume "i \<in> set [start slice..end' slice - 1]" "cell t p q = None"
      "sample_column env img p q i t = Inr t'"
    then have "t' p = t p" using e sample_column_other [of env img p q i t t' p] by simp
    then show "cell t' p q = None" using \<open>cell t p q = None\<close> by (simp add: cell_def)
  qed
  then have "cell g' p q = None"
    using last sample_last_column_corner [of env img p q g1 g'] by (auto split: if_splits)
  then show ?thesis by (simp add: p_def q_def)
qed

lemma grid_get_unwritten:
  "cell g i j = None \<Longrightarrow> g i \<noteq> None \<Longrightarrow> grid_get env g i j = Inr (heap_cell env i j)"
  by (auto simp: grid_get_def cell_def split: option.splits)

section \<open>Stamping a square glyph\<close>

text \<open>
  For a glyph with \<open>n\<close> rows and \<open>n\<close> columns that lies inside the image,
  \<open>march_update\<close> succeeds and the destination \<open>(x0 + a, y0 + b)\<close> receives the glyph's
  pixel \<open>n * a + b\<close>; \<open>march_cell\<close> stamps the glyph that the four corners select.
\<close>

lemma row_bound:
  fixes a n X Y x0 y0 b :: int
  assumes "0 \<le> a" "a < n" "0 \<le> b" "b < n" "0 \<le> x0" "0 \<le> y0" "x0 + n \<le> X" "y0 + n \<le> Y"
  shows "0 \<le> (x0 + a) * Y + y0 + b" "(x0 + a) * Y + y0 + b < X * Y"
proof -
  have Y: "0 \<le> Y" using assms by simp
  have "0 \<le> (x0 + a) * Y" using assms Y by simp
  then show "0 \<le> (x0 + a) * Y + y0 + b" using assms by simp
  have "(x0 + a + 1) * Y \<le> X * Y" using assms Y by (intro mult_right_mono) simp_all
  then show "(x0 + a) * Y + y0 + b < X * Y" using assms by (simp add: algebra_simps)
qed

lemma row_less:
  fixes a a' n Y x0 y0 b :: int
  assumes "a' < a" "b < n" "y0 + n \<le> Y" "0 \<le> y0" "0 \<le> n"
  shows "(x0 + a') * Y + y0 + b < (x0 + a) * Y + y0"
proof -
  have Y: "0 \<le> Y" using assms by simp
  have "(x0 + a' + 1) * Y \<le> (x0 + a) * Y" using assms Y by (intro mult_right_mono) simp_all
  then show ?thesis using assms by (simp add: algebra_simps)
qed

lemma glyph_bound:
  fixes a n b :: int
  assumes "0 \<le> a" "a < n" "0 \<le> b" "b < n"
  shows "0 \<le> n * a + b" "n * a + b < n * n"
proof -
  show "0 \<le> n * a + b" using assms by simp
  have "n * (a + 1) \<le> n * n" using assms by (intro mult_left_mono) simp_all
  then show "n * a + b < n * n" using assms by (simp add: algebra_simps)
qed

lemma march_update_row:
  assumes c: "img_x c = n" "img_y c = n"
    and t: "img_x t = X" "img_y t = Y"
    and a: "0 \<le> a" "a < n"
    and fits: "0 \<le> x0" "0 \<le> y0" "x0 + n \<le> X" "y0 + n \<le> Y"
  shows "\<exists>t'. for_loop [0..img_y c - 1] (\<lambda>j img2.
           bindE (read_pixel env c (img_x c * a + j)) (\<lambda>px.
           write_pixel img2 ((x0 + a) * img_y img2 + y0 + j) px)) t = Inr t'
         \<and> img_x t' = X \<and> img_y t' = Y
         \<and> (\<forall>k. img_data t' k =
               (if (x0 + a) * Y + y0 \<le> k \<and> k < (x0 + a) * Y + y0 + n
                then Some (pixel_value env c (n * a + (k - ((x0 + a) * Y + y0))))
                else img_data t k))"
proof -
  define J where "J b u \<longleftrightarrow> img_x u = X \<and> img_y u = Y
         \<and> (\<forall>k. img_data u k =
               (if (x0 + a) * Y + y0 \<le> k \<and> k < (x0 + a) * Y + y0 + b
                then Some (pixel_value env c (n * a + (k - ((x0 + a) * Y + y0))))
                else img_data t k))" for b and u :: ppm_image
  have "\<exists>t'. for_loop [0..n - 1] (\<lambda>j img2.
           bindE (read_pixel env c (n * a + j)) (\<lambda>px.
           write_pixel img2 ((x0 + a) * img_y img2 + y0 + j) px)) t = Inr t' \<and> J (n - 1 + 1) t'"
  proof (rule for_loop_upto)
    show "0 \<le> n - 1 + 1" using a by simp
    show "J 0 t" using t by (auto simp: J_def)
    fix b u
    assume b: "0 \<le> b" "b \<le> n - 1" and J: "J b u"
    have rd: "read_pixel env c (n * a + b) = Inr (pixel_value env c (n * a + b))"
      using glyph_bound [of a n b] a b c by (simp add: read_pixel_def pixel_value_def)
    have wr: "0 \<le> (x0 + a) * Y + y0 + b \<and> (x0 + a) * Y + y0 + b < X * Y"
      using row_bound [of a n b x0 y0 X Y] a b fits by simp
    show "\<exists>t'. bindE (read_pixel env c (n * a + b)) (\<lambda>px.
           write_pixel u ((x0 + a) * img_y u + y0 + b) px) = Inr t' \<and> J (b + 1) t'"
      using J wr b by (auto simp: rd bindE_def write_pixel_def J_def)
  qed
  then show ?thesis by (simp add: c J_def)
qed

lemma march_update_square:
  assumes c: "img_x c = n" "img_y c = n"
    and fits: "0 \<le> x0" "0 \<le> y0" "x0 + n \<le> img_x img" "y0 + n \<le> img_y img"
  shows "\<exists>img'. march_update env img c x0 y0 = Inr img'
         \<and> img_x img' = img_x img \<and> img_y img' = img_y img
         \<and> (\<forall>a b. 0 \<le> a \<and> a < n \<and> 0 \<le> b \<and> b < n \<longrightarrow>
               img_data img' ((x0 + a) * img_y img + y0 + b) = Some (pixel_value env c (n * a + b)))"
proof (cases "0 \<le> n")
  case False
  then have "[0..img_x c - 1] = []" using c by simp
  then show ?thesis using False by (auto simp: march_update_def)
next
  case True
  define X where "X = img_x img"
  define Y where "Y = img_y img"
  define I where "I a u \<longleftrightarrow> img_x u = X \<and> img_y u = Y
         \<and> (\<forall>a' b. 0 \<le> a' \<and> a' < a \<and> 0 \<le> b \<and> b < n \<longrightarrow>
               img_data u ((x0 + a') * Y + y0 + b) = Some (pixel_value env c (n * a' + b)))"
    for a and u :: ppm_image
  have "\<exists>img'. for_loop [0..n - 1] (\<lambda>i img1.
       for_loop [0..img_y c - 1] (\<lambda>j img2.
         bindE (read_pixel env c (img_x c * i + j)) (\<lambda>px.
         write_pixel img2 ((x0 + i) * img_y img2 + y0 + j) px)) img1) img = Inr img'
       \<and> I (n - 1 + 1) img'"
  proof (rule for_loop_upto)
    show "0 \<le> n - 1 + 1" using True by simp
    show "I 0 img" by (auto simp: I_def X_def Y_def)
    fix a u
    assume a: "0 \<le> a" "a \<le> n - 1" and I: "I a u"
    from I have u: "img_x u = X" "img_y u = Y" by (simp_all add: I_def)
    from march_update_row [OF c u a(1) _ fits(1,2), of env] a(2) fits(3,4)
    obtain t' where t': "for_loop [0..img_y c - 1] (\<lambda>j img2.
           bindE (read_pixel env c (img_x c * a + j)) (\<lambda>px.
           write_pixel img2 ((x0 + a) * img_y img2 + y0 + j) px)) u = Inr t'"
       "img_x t' = X" "img_y t' = Y"
       "\<And>k. img_data t' k =
               (if (x0 + a) * Y + y0 \<le> k \<and> k < (x0 + a) * Y + y0 + n
                then Some (pixel_value env c (n * a + (k - ((x0 + a) * Y + y0))))
                else img_data u k)"
      unfolding X_def Y_def by auto
    have "img_data t' ((x0 + a') * Y + y0 + b) = Some (pixel_value env c (n * a' + b))"
      if "0 \<le> a'" "a' < a + 1" "0 \<le> b" "b < n" for a' b
    proof (cases "a' = a")
      case True
      then show ?thesis using that by (simp add: t'(4))
    next
      case False
      then have "a' < a" using that by simp
      then have "(x0 + a') * Y + y0 + b < (x0 + a) * Y + y0"
        using row_less [of a' a b n y0 Y x0] that fits True by (simp add: Y_def)
      then show ?thesis using I that \<open>a' < a\<close> by (simp add: t'(4) I_def)
    qed
    then show "\<exists>t'. for_loop [0..img_y c - 1] (\<lambda>j img2.
           bindE (read_pixel env c (img_x c * a + j)) (\<lambda>px.
           write_pixel img2 ((x0 + a) * img_y img2 + y0 + j) px)) u = Inr t' \<and> I (a + 1) t'"
      using t'(1,2,3) by (auto simp: I_def)
  qed
  then show ?thesis by (simp add: march_update_def c I_def X_def Y_def)
qed


lemma march_cell_stamps:
  assumes reads: "grid_get env g i j = Inr a" "grid_get env g i (j + 1) = Inr b"
      "grid_get env g (i + 1) (j + 1) = Inr c" "grid_get env g (i + 1) j = Inr d"
    and k: "k = 8 * uint a + 4 * uint b + 2 * uint c + uint d" "k < CONTOUR_CONFIG_COUNT"
    and glyph: "cm k = Some gl" "img_x gl = n" "img_y gl = n" "n \<le> STEP"
      "\<forall>u v. 0 \<le> u \<and> u < n \<and> 0 \<le> v \<and> v < n \<longrightarrow> pixel_at gl u v \<noteq> None"
    and cell: "0 \<le> i" "i < img_x img sdiv STEP" "0 \<le> j" "j < img_y img sdiv STEP"
  shows "\<exists>img'. march_cell env g cm i j img = Inr img'
         \<and> img_x img' = img_x img \<and> img_y img' = img_y img
         \<and> (\<forall>u v. 0 \<le> u \<and> u < n \<and> 0 \<le> v \<and> v < n \<longrightarrow>
               pixel_at img' (i * STEP + u) (j * STEP + v) = pixel_at gl u v)"
proof -
  have k0: "0 \<le> k" "k < 256" using k by (simp_all add: CONTOUR_CONFIG_COUNT_def)
  have idx: "march_index env g i j = Inr (word_of_int k)"
    by (simp add: march_index_def reads bindE_def k)
  have uk: "uint (word_of_int k :: 8 word) = k"
    using k0 by (simp add: uint_word_of_int take_bit_eq_mod)
  have cg: "cmap_get cm (word_of_int k) = Inr gl"
    using k(2) glyph(1) by (simp add: cmap_get_def uk)
  have x: "0 \<le> img_x img" "(i + 1) * 8 \<le> img_x img"
    using cell(1,2) by (auto simp: STEP_def signed_divide_int_def sgn_if split: if_splits)
  have y: "0 \<le> img_y img" "(j + 1) * 8 \<le> img_y img"
    using cell(3,4) by (auto simp: STEP_def signed_divide_int_def sgn_if split: if_splits)
  from march_update_square [OF glyph(2,3), of "i * STEP" "j * STEP" img env]
  obtain img' where img': "march_update env img gl (i * STEP) (j * STEP) = Inr img'"
    "img_x img' = img_x img" "img_y img' = img_y img"
    "\<And>u v. 0 \<le> u \<Longrightarrow> u < n \<Longrightarrow> 0 \<le> v \<Longrightarrow> v < n \<Longrightarrow>
       img_data img' ((i * STEP + u) * img_y img + j * STEP + v) = Some (pixel_value env gl (n * u + v))"
    using x y cell glyph(4) by (auto simp: STEP_def)
  have "pixel_at img' (i * STEP + u) (j * STEP + v) = pixel_at gl u v"
    if "0 \<le> u" "u < n" "0 \<le> v" "v < n" for u v
  proof -
    from glyph(5) that obtain px where "pixel_at gl u v = Some px" by auto
    then show ?thesis
      using img'(4) [OF that] img'(3)
      by (simp add: pixel_at_def pixel_value_def glyph(3) mult.commute add.assoc)
  qed
  then show ?thesis
    using img'(1,2,3) by (auto simp: march_cell_def idx cg bindE_def)
qed

section \<open>Bounds on rounded values\<close>

text \<open>
  \<open>ilog2\<close> is the binade: \<open>pow2 (ilog2 v) \<le> v\<close>. Rounding keeps a value below any bound
  that lies on the grid of representable numbers around it, and keeps it non-negative.
\<close>

lemma pow2_add: "pow2 (a + b) = pow2 a * pow2 b"
proof -
  have p: "pow2 e = 2 powi e" for e
    by (simp add: pow2_def power_int_def inverse_eq_divide power_one_over)
  show ?thesis by (simp add: p power_int_add)
qed

lemma pow2_nat: "0 \<le> e \<Longrightarrow> pow2 e = of_int (2 ^ nat e)"
  by (simp add: pow2_def)

lemma pow2_strict_mono: "a < b \<Longrightarrow> pow2 a < pow2 b"
proof -
  assume "a < b"
  then have "pow2 b = pow2 a * pow2 (b - a)" using pow2_add [of a "b - a"] by simp
  moreover have "1 < pow2 (b - a)" using \<open>a < b\<close> by (simp add: pow2_def)
  ultimately show ?thesis using pow2_pos [of a] by simp
qed

lemma pow2_ilog2_le:
  assumes "0 < v"
  shows "pow2 (ilog2 v) \<le> v"
proof (cases "1 \<le> v")
  case True
  then have f: "0 < \<lfloor>v\<rfloor>" by simp
  have b: "1 \<le> bitlen \<lfloor>v\<rfloor>" using f bitlen_eq_zero_iff [of "\<lfloor>v\<rfloor>"] bitlen_nonneg [of "\<lfloor>v\<rfloor>"] by linarith
  have "(2 :: int) ^ nat (bitlen \<lfloor>v\<rfloor> - 1) \<le> \<lfloor>v\<rfloor>" using bitlen_bounds [OF f] by simp
  then have "rat_of_int (2 ^ nat (bitlen \<lfloor>v\<rfloor> - 1)) \<le> of_int \<lfloor>v\<rfloor>" by (simp only: of_int_le_iff)
  also have "\<dots> \<le> v" by simp
  finally show ?thesis using True b by (simp add: ilog2_def pow2_def)
next
  case False
  define c where "c = \<lceil>1 / v\<rceil>"
  have "1 < 1 / v" using False assms by simp
  then have c2: "2 \<le> c" unfolding c_def by (simp add: le_ceiling_iff)
  have "c - 1 < 2 ^ nat (bitlen (c - 1))" using bitlen_bounds [of "c - 1"] c2 by simp
  then have "c \<le> 2 ^ nat (bitlen (c - 1))" by simp
  then have "rat_of_int c \<le> of_int (2 ^ nat (bitlen (c - 1)))" by (simp only: of_int_le_iff)
  moreover have "1 / v \<le> of_int c" unfolding c_def by simp
  ultimately have "1 / v \<le> rat_of_int (2 ^ nat (bitlen (c - 1)))" by (rule order_trans [rotated])
  then have "1 / v \<le> 2 ^ nat (bitlen (c - 1))" by simp
  then have "1 \<le> 2 ^ nat (bitlen (c - 1)) * v" using assms by (simp add: field_simps)
  then have "1 / 2 ^ nat (bitlen (c - 1)) \<le> v" by (simp add: field_simps)
  moreover have "0 \<le> bitlen (c - 1)" by (rule bitlen_nonneg)
  ultimately show ?thesis
    using False by (cases "bitlen (c - 1) = 0") (simp_all add: ilog2_def pow2_def c_def)
qed

lemma ilog2_less:
  assumes "0 < v" "v < pow2 e"
  shows "ilog2 v < e"
proof (rule ccontr)
  assume "\<not> ilog2 v < e"
  then have "pow2 e \<le> pow2 (ilog2 v)"
    using pow2_strict_mono [of e "ilog2 v"] by (cases "e = ilog2 v") simp_all
  then show False using pow2_ilog2_le [OF assms(1)] assms(2) by simp
qed

lemma round_ties_even_le:
  assumes "v \<le> of_int k"
  shows "round_ties_even v \<le> k"
proof (cases "\<lfloor>v\<rfloor> = k")
  case True
  then have "v = of_int k" using assms by (metis floor_correct order_antisym)
  then show ?thesis by (simp add: round_ties_even_of_int)
next
  case False
  have "\<lfloor>v\<rfloor> \<le> k" using assms by (simp add: floor_le_iff) 
  then have "\<lfloor>v\<rfloor> + 1 \<le> k" using False by simp
  then show ?thesis by (auto simp: round_ties_even_def Let_def)
qed

lemma round_ties_even_nonneg: "0 \<le> v \<Longrightarrow> 0 \<le> round_ties_even v"
  by (auto simp: round_ties_even_def Let_def)

lemma round_binary_nonneg:
  assumes "0 \<le> v"
  shows "0 \<le> round_binary prec emin v"
proof -
  have "0 \<le> rat_of_int (round_ties_even (v / pow2 s)) * pow2 s" for s
  proof -
    have "0 \<le> v / pow2 s" using assms pow2_pos [of s] by simp
    then have "0 \<le> round_ties_even (v / pow2 s)" by (rule round_ties_even_nonneg)
    then have "0 \<le> rat_of_int (round_ties_even (v / pow2 s))" by simp
    then show ?thesis using pow2_pos [of s] by (intro mult_nonneg_nonneg) simp_all
  qed
  then show ?thesis by (simp add: round_binary_def Let_def)
qed

text \<open>A bound that is itself on the grid of \<open>v\<close> bounds the rounded value.\<close>

lemma round_binary_le_grid:
  assumes "0 < v" "v \<le> of_int M * pow2 t" "v < pow2 (t + prec)" "emin \<le> t"
  shows "round_binary prec emin v \<le> of_int M * pow2 t"
proof -
  define s where "s = max (ilog2 \<bar>v\<bar> - (prec - 1)) emin"
  have "ilog2 v < t + prec" using assms(1,3) by (rule ilog2_less)
  then have st: "s \<le> t" using assms(1,4) by (simp add: s_def)
  have pt: "pow2 t = pow2 s * of_int (2 ^ nat (t - s))"
    using pow2_add [of s "t - s"] st by (simp add: pow2_nat)
  have "v / pow2 s \<le> of_int M * pow2 t / pow2 s"
    using assms(2) pow2_pos [of s] by (simp add: divide_right_mono)
  also have "\<dots> = of_int (M * 2 ^ nat (t - s))"
    using pow2_pos [of s] by (simp add: pt)
  finally have "round_ties_even (v / pow2 s) \<le> M * 2 ^ nat (t - s)"
    by (rule round_ties_even_le)
  then have "rat_of_int (round_ties_even (v / pow2 s)) \<le> of_int (M * 2 ^ nat (t - s))"
    by (simp only: of_int_le_iff)
  then have "rat_of_int (round_ties_even (v / pow2 s)) * pow2 s \<le> of_int (M * 2 ^ nat (t - s)) * pow2 s"
    using pow2_pos [of s] by (simp add: mult_right_mono)
  also have "\<dots> = of_int M * pow2 t" by (simp add: pt)
  finally show ?thesis using assms(1) by (simp add: round_binary_def Let_def s_def)
qed

lemma round_double_le_grid:
  assumes "0 \<le> v" "v \<le> of_int M * pow2 t" "v < pow2 (t + 53)" "- 1074 \<le> t"
  shows "round_double v \<le> of_int M * pow2 t"
proof (cases "v = 0")
  case True
  then show ?thesis using assms(2) by (simp add: round_double_def round_binary_def)
next
  case False
  then show ?thesis
    using round_binary_le_grid [of v M t 53 "- 1074"] assms by (simp add: round_double_def)
qed

lemma round_double_nonneg: "0 \<le> v \<Longrightarrow> 0 \<le> round_double v"
  by (simp add: round_double_def round_binary_nonneg)

section \<open>Slices of a range shorter than the number of threads\<close>

text \<open>
  With at most as many items as threads the ratio is at most 1, and every slice is defined
  and lies within the range. With 49 threads and one item every slice is empty: the double
  nearest to \<open>1 / 49\<close> is below it, and 49 times that double rounds to the double below 1.
\<close>

lemma long_of_double_floor:
  assumes "0 \<le> d" "d < 2 ^ 63"
  shows "long_of_double d = Some \<lfloor>d\<rfloor>"
proof -
  have "\<lfloor>d\<rfloor> < 2 ^ 63" using assms(2) by (simp add: floor_less_iff)
  moreover have "0 \<le> \<lfloor>d\<rfloor>" using assms(1) by simp
  ultimately show ?thesis using assms(1) by (simp add: long_of_double_def Let_def)
qed

lemma thread_get_slice_few_items:
  assumes n: "1 \<le> nthreads" "nthreads < 2 ^ 53"
    and r: "0 \<le> rng" "rng \<le> nthreads"
    and t: "0 \<le> tid" "tid < 2 ^ 52"
  shows "\<exists>sl. thread_get_slice tid nthreads rng = Some sl \<and> 0 \<le> start sl \<and> 0 \<le> end' sl \<and> end' sl \<le> rng"
proof -
  define ratio where "ratio = round_double (of_int rng / of_int nthreads)"
  define lo where "lo = round_double (of_int tid * ratio)"
  define hi where "hi = round_double ((of_int tid + 1) * ratio)"
  define v where "v = (if hi < of_int rng then hi else of_int rng)"
  have ex: "double_of_long rng = of_int rng" "double_of_long nthreads = of_int nthreads"
    "double_of_long tid = of_int tid" "double_of_long (tid + 1) = of_int (tid + 1)"
    using n r t by (simp_all add: double_of_long_exact)
  have q: "0 \<le> rat_of_int rng / of_int nthreads" "rat_of_int rng / of_int nthreads \<le> 1"
    using n r by simp_all
  have ratio0: "0 \<le> ratio" unfolding ratio_def using q(1) by (rule round_double_nonneg)
  have "ratio \<le> of_int 1 * pow2 0"
    unfolding ratio_def using q by (intro round_double_le_grid) (simp_all add: pow2_def)
  then have ratio1: "ratio \<le> 1" by (simp add: pow2_def)
  have p0: "0 \<le> rat_of_int tid * ratio" using t ratio0 by simp
  have "rat_of_int tid * ratio \<le> of_int tid * 1"
    using t ratio1 by (intro mult_left_mono) simp_all
  also have "\<dots> \<le> 2 ^ 52" using t by simp
  finally have p1: "rat_of_int tid * ratio \<le> 2 ^ 52" .
  have lo0: "0 \<le> lo" unfolding lo_def using p0 by (rule round_double_nonneg)
  have "lo \<le> of_int 1 * pow2 52"
    unfolding lo_def using p0 p1 by (intro round_double_le_grid) (simp_all add: pow2_def)
  then have "lo < 2 ^ 63" by (simp add: pow2_def)
  then have s: "long_of_double lo = Some \<lfloor>lo\<rfloor>" using lo0 by (intro long_of_double_floor)
  have "0 \<le> (rat_of_int tid + 1) * ratio" using t ratio0 by simp
  then have hi0: "0 \<le> hi" unfolding hi_def by (rule round_double_nonneg)
  have v0: "0 \<le> v" "v \<le> of_int rng" using hi0 r by (simp_all add: v_def)
  have "rat_of_int rng < 2 ^ 63" using r n by simp
  then have "v < 2 ^ 63" using v0(2) by simp
  then have e: "long_of_double v = Some \<lfloor>v\<rfloor>" using v0(1) by (intro long_of_double_floor)
  have "\<lfloor>v\<rfloor> \<le> \<lfloor>rat_of_int rng\<rfloor>" using v0(2) by (rule floor_mono)
  then have "\<lfloor>v\<rfloor> \<le> rng" by simp
  moreover have "0 \<le> \<lfloor>v\<rfloor>" "0 \<le> \<lfloor>lo\<rfloor>" using v0(1) lo0 by simp_all
  moreover have "thread_get_slice tid nthreads rng = Some \<lparr>start = \<lfloor>lo\<rfloor>, end' = \<lfloor>v\<rfloor>\<rparr>"
    using n s e unfolding v_def
    by (auto simp: thread_get_slice_def Let_def ex double_div_def double_mul_def
        ratio_def [symmetric] lo_def [symmetric] hi_def [symmetric] split: if_splits)
  ultimately show ?thesis by simp
qed

lemma thread_get_slice_48_49_1: "thread_get_slice 48 49 1 = Some \<lparr>start = 0, end' = 0\<rparr>"
  by code_simp

lemma thread_get_slice_49_1:
  assumes "0 \<le> tid" "tid \<le> 48"
  shows "thread_get_slice tid 49 1 = Some \<lparr>start = 0, end' = 0\<rparr>"
proof (cases "tid = 48")
  case True
  then show ?thesis by (simp add: thread_get_slice_48_49_1)
next
  case False
  then have t: "tid \<le> 47" using assms by simp
  define ratio where "ratio = round_double (1 / 49)"
  have ex: "double_of_long 1 = 1" "double_of_long 49 = 49"
    "double_of_long tid = of_int tid" "double_of_long (tid + 1) = of_int (tid + 1)"
    using assms double_of_long_exact [of 1] double_of_long_exact [of 49]
    by (simp_all add: double_of_long_exact)
  have ratio0: "0 \<le> ratio" unfolding ratio_def by (rule round_double_nonneg) simp
  have "ratio \<le> of_int 5882252574524730 * pow2 (- 58)"
    unfolding ratio_def by (intro round_double_le_grid) (simp_all add: pow2_def)
  then have ratio1: "ratio \<le> 5882252574524730 / 288230376151711744" by (simp add: pow2_def)
  have b: "0 \<le> round_double (of_int u * ratio) \<and> round_double (of_int u * ratio) < 1"
    if "0 \<le> u" "u \<le> 48" for u :: int
  proof -
    have p0: "0 \<le> rat_of_int u * ratio" using that ratio0 by simp
    have "rat_of_int u * ratio \<le> of_int u * (5882252574524730 / 288230376151711744)"
      using that ratio1 by (intro mult_left_mono) simp_all
    also have "\<dots> \<le> 48 * (5882252574524730 / 288230376151711744)"
      using that by (intro mult_right_mono) simp_all
    finally have p1: "rat_of_int u * ratio \<le> 48 * (5882252574524730 / 288230376151711744)" .
    have "round_double (of_int u * ratio) \<le> of_int 9007199254740991 * pow2 (- 53)"
      using p0 p1 by (intro round_double_le_grid) (simp_all add: pow2_def)
    then have "round_double (of_int u * ratio) < 1" by (simp add: pow2_def)
    then show ?thesis using p0 by (simp add: round_double_nonneg)
  qed
  define lo where "lo = round_double (of_int tid * ratio)"
  define hi where "hi = round_double ((of_int tid + 1) * ratio)"
  have lo: "0 \<le> lo" "lo < 1" using b [of tid] assms t by (simp_all add: lo_def)
  have hi: "0 \<le> hi" "hi < 1" using b [of "tid + 1"] assms t by (simp_all add: hi_def)
  have "\<lfloor>lo\<rfloor> = 0" "\<lfloor>hi\<rfloor> = 0" using lo hi by (simp_all add: floor_eq_iff)
  then have "long_of_double lo = Some 0" "long_of_double hi = Some 0"
    using lo hi by (simp_all add: long_of_double_def Let_def)
  then show ?thesis
    using hi(2)
    by (simp add: thread_get_slice_def Let_def ex double_div_def double_mul_def
        ratio_def [symmetric] lo_def [symmetric] hi_def [symmetric])
qed

section \<open>A run of 49 threads on the black image of 8 by 8 pixels\<close>

text \<open>
  Part by part: the image is read and aliased, nothing is rescaled, the glyph table is
  filled by the threads whose slice of the 16 glyphs is not empty, no thread samples or
  marches a column since every slice of the one grid column is empty (the last thread
  fills column 1), and the image is written as it was read.
\<close>

lemma for_loop_const:
  assumes "\<And>i. i \<in> set is \<Longrightarrow> body i s = Inr s"
  shows "for_loop is body s = Inr s"
  using assms by (induction "is") (simp_all add: bindE_def)

lemma for_loop_append:
  "for_loop (xs @ ys) body s = bindE (for_loop xs body s) (for_loop ys body)"
  by (induction xs arbitrary: s) (simp_all add: bindE_def split: sum.splits)

lemma for_loop_total:
  assumes "\<And>i s. i \<in> set is \<Longrightarrow> \<exists>s'. body i s = Inr s'"
  shows "\<exists>s'. for_loop is body s = Inr s'"
  using assms
proof (induction "is" arbitrary: s)
  case Nil
  then show ?case by simp
next
  case (Cons i "is")
  from Cons.prems [of i s] obtain t where "body i s = Inr t" by auto
  moreover have "\<exists>s'. for_loop is body t = Inr s'" using Cons.prems by (intro Cons.IH) simp
  ultimately show ?case by (simp add: bindE_def)
qed

lemma run_part_idle [simp]:
  "run_part n env (idle_machine cm g fin fs) = for_loop [0..48] (worker_part n env) (idle_machine cm g fin fs)"
  by (simp add: run_part_def idle_machine_def)

lemma env_simps [simp]:
  "RESCALE_X (test_env input junk) = 2048" "RESCALE_Y (test_env input junk) = 2048"
  "read_ppm (test_env input junk) ''in.ppm'' = input"
  by (simp_all add: test_env_def test_read_ppm_def)

lemma black8_simps [simp]: "img_x black8 = 8" "img_y black8 = 8"
  by (simp_all add: black8_def solid_image_def)

lemma run_part_0_of_49:
  "run_part 0 (test_env black8 junk) (initial_machine ''in.ppm'' ''out.ppm'' 49)
     = Inr (idle_machine (Some Map.empty) None 0 Map.empty)"
proof -
  let ?E = "test_env black8 junk"
  let ?m1 = "idle_machine (Some Map.empty) None 0 Map.empty"
  have first: "worker_part 0 ?E 0 (initial_machine ''in.ppm'' ''out.ppm'' 49) = Inr ?m1"
    by (simp add: initial_machine_def image_read_def cmap_alloc_def idle_machine_def Let_def)
  have rest: "worker_part 0 ?E i ?m1 = Inr ?m1" for i
    by (simp add: image_read_def cmap_alloc_def idle_machine_def)
  have "for_loop [1..48] (worker_part 0 ?E) ?m1 = Inr ?m1"
    by (rule for_loop_const) (rule rest)
  then show ?thesis
    using first by (simp add: run_part_def initial_machine_def upto_rec1 [of 0 48] bindE_def)
qed

lemma run_part_1_of_49:
  "run_part 1 (test_env black8 junk) (idle_machine cm g fin fs) = Inr (idle_machine cm g fin fs)"
proof -
  have "worker_part 1 (test_env black8 junk) i (idle_machine cm g fin fs) = Inr (idle_machine cm g fin fs)" for i
    by (simp add: worker_rescale_def rescale_image_def idle_machine_def bindE_def)
  then show ?thesis by (simp add: for_loop_const)
qed

lemma run_part_2_of_49:
  "\<exists>cm. run_part 2 (test_env black8 junk) (idle_machine (Some Map.empty) None 0 Map.empty)
     = Inr (idle_machine (Some cm) (Some Map.empty) 0 Map.empty)"
proof -
  let ?E = "test_env black8 junk"
  define I where "I i m \<longleftrightarrow> (\<exists>cm g. m = idle_machine (Some cm) g 0 Map.empty
      \<and> (g = None \<and> i = 0 \<or> g = Some Map.empty))" for i :: int and m
  have "\<exists>m'. for_loop [0..48] (worker_part 2 ?E) (idle_machine (Some Map.empty) None 0 Map.empty) = Inr m'
      \<and> I (48 + 1) m'"
  proof (rule for_loop_upto)
    show "(0 :: int) \<le> 48 + 1" by simp
    show "I 0 (idle_machine (Some Map.empty) None 0 Map.empty)" by (auto simp: I_def)
    fix i m
    assume i: "(0 :: int) \<le> i" "i \<le> 48" and "I i m"
    then obtain cm g where m: "m = idle_machine (Some cm) g 0 Map.empty"
      and g: "g = None \<or> g = Some Map.empty" by (auto simp: I_def)
    have ga: "grid_alloc m = Inr (idle_machine (Some cm) (Some Map.empty) 0 Map.empty)"
      using g by (auto simp: m grid_alloc_def idle_machine_def)
    from thread_get_slice_few_items [of 49 16 i] i obtain sl where
      sl: "thread_get_slice i 49 16 = Some sl" "0 \<le> start sl" "end' sl \<le> 16" by auto
    have "\<exists>cm'. for_loop [start sl..end' sl - 1] (\<lambda>i cm1.
       if 0 \<le> i \<and> i < CONTOUR_CONFIG_COUNT
       then Inr (cm1(i \<mapsto> read_ppm ?E (contour_filename i)))
       else Inl OutOfBounds) cm = Inr cm'"
      using sl(2,3) by (intro for_loop_total) (auto simp: CONTOUR_CONFIG_COUNT_def)
    then obtain cm' where "init_cmap ?E cm i 49 = Inr cm'"
      by (auto simp: init_cmap_def get_slice_def sl(1) bindE_def CONTOUR_CONFIG_COUNT_def)
    then have "worker_part 2 ?E i m = Inr (idle_machine (Some cm') (Some Map.empty) 0 Map.empty)"
      by (simp add: numeral_2_eq_2 ga bindE_def worker_init_cmap_def idle_machine_def)
    then show "\<exists>t'. worker_part 2 ?E i m = Inr t' \<and> I (i + 1) t'"
      by (auto simp: I_def)
  qed
  then show ?thesis by (auto simp: I_def)
qed

lemma get_slice_49_1: "0 \<le> tid \<Longrightarrow> tid \<le> 48 \<Longrightarrow> get_slice tid 49 1 = Inr \<lparr>start = 0, end' = 0\<rparr>"
  by (simp add: get_slice_def thread_get_slice_49_1)

lemma black8_dims [simp]: "(8 :: int) sdiv STEP = 1"
  by (simp add: STEP_def signed_divide_int_def)

lemma sample_last_column_black8:
  "sample_last_column (test_env black8 junk) black8 1 1 Map.empty
     = Inr (Map.empty(1 \<mapsto> Map.empty(0 \<mapsto> 1)))"
proof -
  have "read_pixel (test_env black8 junk) black8 56 = Inr black"
    by (simp add: read_pixel_def pixel_value_def black8_def solid_image_def)
  moreover have "below_sigma black = 1"
    by (simp add: below_sigma_def curr_col_def black_def SIGMA'_def signed_divide_int_def)
  ultimately show ?thesis
    by (simp add: sample_last_column_def grid_alloc_column_def upto_rec1 [of 0 0] bindE_def
        grid_set_def STEP_def)
qed

lemma run_part_3_of_49:
  "run_part 3 (test_env black8 junk) (idle_machine (Some cm) (Some Map.empty) 0 Map.empty)
     = Inr (idle_machine (Some cm) (Some (Map.empty(1 \<mapsto> Map.empty(0 \<mapsto> 1)))) 0 Map.empty)"
proof -
  let ?E = "test_env black8 junk"
  let ?m = "idle_machine (Some cm) (Some Map.empty) 0 Map.empty"
  have idle: "worker_part 3 ?E i ?m = Inr ?m" if "i \<in> set [0..47]" for i
    using that
    by (simp add: numeral_3_eq_3 worker_sample_grid_def idle_machine_def sample_grid_def
        get_slice_49_1 bindE_def Let_def)
  have last: "worker_part 3 ?E 48 ?m
      = Inr (idle_machine (Some cm) (Some (Map.empty(1 \<mapsto> Map.empty(0 \<mapsto> 1)))) 0 Map.empty)"
    by (simp add: numeral_3_eq_3 worker_sample_grid_def idle_machine_def sample_grid_def
        get_slice_49_1 bindE_def Let_def sample_last_column_black8)
  have "for_loop [0..47] (worker_part 3 ?E) ?m = Inr ?m"
    by (rule for_loop_const) (rule idle)
  then show ?thesis
    using last by (simp add: upto_rec2 [of 0 48] for_loop_append bindE_def)
qed

lemma run_part_4_of_49:
  "run_part 4 (test_env black8 junk) (idle_machine (Some cm) (Some g) 0 fs)
     = Inr (idle_machine (Some cm) (Some g) 0 fs)"
proof -
  have "worker_part 4 (test_env black8 junk) i (idle_machine (Some cm) (Some g) 0 fs)
      = Inr (idle_machine (Some cm) (Some g) 0 fs)" if "i \<in> set [0..48]" for i
    using that
    by (simp add: eval_nat_numeral worker_march_def idle_machine_def march_def
        get_slice_49_1 bindE_def Let_def)
  then have "for_loop [0..48] (worker_part 4 (test_env black8 junk)) (idle_machine (Some cm) (Some g) 0 fs)
      = Inr (idle_machine (Some cm) (Some g) 0 fs)"
    by (rule for_loop_const)
  then show ?thesis by simp
qed

lemma run_part_5_of_49:
  "run_part 5 (test_env black8 junk) (idle_machine cm g 0 Map.empty)
     = Inr (idle_machine cm g 1 (Map.empty(''out.ppm'' \<mapsto> black8)))"
proof -
  let ?E = "test_env black8 junk"
  let ?m = "idle_machine cm g 1 (Map.empty(''out.ppm'' \<mapsto> black8))"
  have first: "worker_part 5 ?E 0 (idle_machine cm g 0 Map.empty) = Inr ?m"
    by (simp add: eval_nat_numeral write_once_def idle_machine_def)
  have rest: "worker_part 5 ?E i ?m = Inr ?m" for i
    by (simp add: eval_nat_numeral write_once_def idle_machine_def)
  have "for_loop [1..48] (worker_part 5 ?E) ?m = Inr ?m"
    by (rule for_loop_const) (rule rest)
  then show ?thesis
    using first by (simp add: upto_rec1 [of 0 48] bindE_def)
qed

lemma pipeline_of_49:
  "\<exists>cm g. pipeline (test_env black8 junk) ''in.ppm'' ''out.ppm'' 49
     = Inr (idle_machine cm g 1 (Map.empty(''out.ppm'' \<mapsto> black8)))"
proof -
  from run_part_2_of_49 [of junk] obtain cm where
    "run_part 2 (test_env black8 junk) (idle_machine (Some Map.empty) None 0 Map.empty)
     = Inr (idle_machine (Some cm) (Some Map.empty) 0 Map.empty)" by blast
  then have "pipeline (test_env black8 junk) ''in.ppm'' ''out.ppm'' 49
     = Inr (idle_machine (Some cm) (Some (Map.empty(1 \<mapsto> Map.empty(0 \<mapsto> 1)))) 1
         (Map.empty(''out.ppm'' \<mapsto> black8)))"
    unfolding pipeline_def
    by (simp only: run_part_0_of_49 run_part_1_of_49 run_part_3_of_49 run_part_4_of_49 run_part_5_of_49 bindE_def sum.case One_nat_def [symmetric])
  then show ?thesis by blast
qed

section \<open>What one thread samples\<close>

text \<open>What a loop of cell writes leaves in the column it writes.\<close>

lemma sample_rows:
  assumes g: "g i = Some col0"
    and rd: "\<And>j. 0 \<le> j \<Longrightarrow> j < q \<Longrightarrow> read_pixel env img (idx j) = Inr (pixel_value env img (idx j))"
  shows "for_loop [0..q - 1] (\<lambda>j g2.
           bindE (read_pixel env img (idx j)) (\<lambda>curr_pix.
           grid_set g2 i j (below_sigma curr_pix))) g
         = Inr (g(i \<mapsto> (\<lambda>j. if 0 \<le> j \<and> j < q
                                then Some (below_sigma (pixel_value env img (idx j)))
                                else col0 j)))"
proof (cases "0 \<le> q")
  case False
  then have e: "[0..q - 1] = []" by simp
  have "g(i \<mapsto> (\<lambda>j. if 0 \<le> j \<and> j < q
                                then Some (below_sigma (pixel_value env img (idx j)))
                                else col0 j)) = g"
    using False g by (auto simp: fun_eq_iff)
  then show ?thesis by (simp add: e)
next
  case True
  define I where "I n g2 \<longleftrightarrow> g2 = g(i \<mapsto> (\<lambda>j. if 0 \<le> j \<and> j < n
                                then Some (below_sigma (pixel_value env img (idx j)))
                                else col0 j))" for n g2
  have "\<exists>g'. for_loop [0..q - 1] (\<lambda>j g2.
           bindE (read_pixel env img (idx j)) (\<lambda>curr_pix.
           grid_set g2 i j (below_sigma curr_pix))) g = Inr g' \<and> I (q - 1 + 1) g'"
  proof (rule for_loop_upto)
    show "0 \<le> q - 1 + 1" using True by simp
    show "I 0 g" using g by (auto simp: I_def fun_eq_iff)
    fix j g2
    assume j: "0 \<le> j" "j \<le> q - 1" and "I j g2"
    then have g2: "g2 = g(i \<mapsto> (\<lambda>k. if 0 \<le> k \<and> k < j
                                then Some (below_sigma (pixel_value env img (idx k)))
                                else col0 k))" by (simp add: I_def)
    have r: "read_pixel env img (idx j) = Inr (pixel_value env img (idx j))" using j by (intro rd) simp_all
    have c: "(\<lambda>k. if 0 \<le> k \<and> k < j
                then Some (below_sigma (pixel_value env img (idx k))) else col0 k)
               (j \<mapsto> below_sigma (pixel_value env img (idx j)))
             = (\<lambda>k. if 0 \<le> k \<and> k < j + 1
                then Some (below_sigma (pixel_value env img (idx k))) else col0 k)"
      using j by (auto simp: fun_eq_iff)
    show "\<exists>t'. bindE (read_pixel env img (idx j)) (\<lambda>curr_pix.
           grid_set g2 i j (below_sigma curr_pix)) = Inr t' \<and> I (j + 1) t'"
      by (simp add: r bindE_def grid_set_def g2 I_def c)
  qed
  then show ?thesis by (simp add: I_def)
qed

lemma read_pixel_inside:
  "0 \<le> idx \<Longrightarrow> idx < img_x img * img_y img \<Longrightarrow> read_pixel env img idx = Inr (pixel_value env img idx)"
  by (simp add: read_pixel_def)

lemma sample_column_result:
  assumes i: "0 \<le> i" "i \<le> p"
    and bnd: "0 \<le> i * STEP * img_y img + img_x img - 1"
      "i * STEP * img_y img + img_x img - 1 < img_x img * img_y img"
    and rows: "\<And>j. 0 \<le> j \<Longrightarrow> j < q \<Longrightarrow>
      0 \<le> i * STEP * img_y img + j * STEP \<and> i * STEP * img_y img + j * STEP < img_x img * img_y img"
  shows "sample_column env img p q i g
         = Inr (g(i \<mapsto> (\<lambda>j. if 0 \<le> j \<and> j < q
              then Some (below_sigma (pixel_value env img (i * STEP * img_y img + j * STEP)))
              else (Map.empty(q \<mapsto> below_sigma
                      (pixel_value env img (i * STEP * img_y img + img_x img - 1)))) j)))"
proof -
  let ?b = "below_sigma (pixel_value env img (i * STEP * img_y img + img_x img - 1))"
  let ?g1 = "g(i \<mapsto> Map.empty(q \<mapsto> ?b))"
  have "for_loop [0..q - 1] (\<lambda>j g2.
           bindE (read_pixel env img (i * STEP * img_y img + j * STEP)) (\<lambda>curr_pix.
           grid_set g2 i j (below_sigma curr_pix))) ?g1
         = Inr (?g1(i \<mapsto> (\<lambda>j. if 0 \<le> j \<and> j < q
              then Some (below_sigma (pixel_value env img (i * STEP * img_y img + j * STEP)))
              else (Map.empty(q \<mapsto> ?b)) j)))"
    by (rule sample_rows [where ?col0.0 = "Map.empty(q \<mapsto> ?b)"])
       (simp_all add: read_pixel_inside rows)
  then show ?thesis
    using i bnd
    by (simp add: sample_column_def grid_alloc_column_def read_pixel_inside bindE_def grid_set_def)
qed

lemma sample_last_column_result:
  assumes p: "0 \<le> p"
    and rows: "\<And>j. 0 \<le> j \<Longrightarrow> j < q \<Longrightarrow>
      0 \<le> (img_x img - 1) * img_y img + j * STEP
      \<and> (img_x img - 1) * img_y img + j * STEP < img_x img * img_y img"
  shows "sample_last_column env img p q g
         = Inr (g(p \<mapsto> (\<lambda>j. if 0 \<le> j \<and> j < q
              then Some (below_sigma (pixel_value env img ((img_x img - 1) * img_y img + j * STEP)))
              else None)))"
proof -
  let ?g0 = "g(p \<mapsto> Map.empty)"
  have "for_loop [0..q - 1] (\<lambda>j g2.
           bindE (read_pixel env img ((img_x img - 1) * img_y img + j * STEP)) (\<lambda>curr_pix.
           grid_set g2 p j (below_sigma curr_pix))) ?g0
         = Inr (?g0(p \<mapsto> (\<lambda>j. if 0 \<le> j \<and> j < q
              then Some (below_sigma (pixel_value env img ((img_x img - 1) * img_y img + j * STEP)))
              else Map.empty j)))"
    by (rule sample_rows [where ?col0.0 = Map.empty])
       (simp_all add: read_pixel_inside rows)
  then show ?thesis
    using p by (simp add: sample_last_column_def grid_alloc_column_def bindE_def)
qed

lemma sample_grid_one_thread:
  assumes x: "8 \<le> img_x img" "img_x img < 2 ^ 31" and y: "img_x img \<le> img_y img"
  shows "sample_grid env Map.empty img 0 1 = Inr (sampled_grid env img)"
proof -
  define X where "X = img_x img"
  define Y where "Y = img_y img"
  define p where "p = X div 8"
  define q where "q = Y div 8"
  have sd: "img_x img sdiv STEP = p" "img_y img sdiv STEP = q"
    using x y by (simp_all add: STEP_def sdiv_nonneg p_def q_def X_def Y_def)
  have p: "1 \<le> p" "p < 2 ^ 53" "p * 8 \<le> X" using x by (simp_all add: p_def X_def)
  have q: "q * 8 \<le> Y" "0 \<le> Y" using x y by (simp_all add: q_def Y_def)
  have XY: "8 \<le> X" "X \<le> Y" using x y by (simp_all add: X_def Y_def)
  have sl: "get_slice 0 1 p = Inr \<lparr>start = 0, end' = p\<rparr>"
    using p by (simp add: get_slice_def thread_get_slice_single)
  have row: "0 \<le> i * 8 * Y \<and> i * 8 * Y + Y \<le> X * Y" if "0 \<le> i" "i < p" for i
  proof -
    have "(i * 8 + 1) * Y \<le> X * Y" using that p(3) q(2) by (intro mult_right_mono) simp_all
    moreover have "(i * 8 + 1) * Y = i * 8 * Y + Y" by (simp add: algebra_simps)
    moreover have "0 \<le> i * 8 * Y" using that q(2) by simp
    ultimately show ?thesis by simp
  qed
  have inner: "0 \<le> i * 8 * Y + j * 8 \<and> i * 8 * Y + j * 8 < X * Y"
    if "0 \<le> i" "i < p" "0 \<le> j" "j < q" for i j
  proof -
    have "j * 8 < Y" using that q(1) by simp
    then show ?thesis using row [of i] that by linarith
  qed
  have bnd: "0 \<le> i * 8 * Y + X - 1 \<and> i * 8 * Y + X - 1 < X * Y" if "0 \<le> i" "i < p" for i
    using row [of i] that XY by linarith
  have last: "0 \<le> (X - 1) * Y + j * 8 \<and> (X - 1) * Y + j * 8 < X * Y" if "0 \<le> j" "j < q" for j
  proof -
    have "0 \<le> (X - 1) * Y" using XY q(2) by simp
    moreover have "(X - 1) * Y = X * Y - Y" by (simp add: algebra_simps)
    moreover have "j * 8 < Y" using that q(1) by simp
    ultimately show ?thesis using that by linarith
  qed
  define col where "col i = (\<lambda>j. if 0 \<le> j \<and> j < q
              then Some (below_sigma (pixel_value env img (i * STEP * Y + j * STEP)))
              else (Map.empty(q \<mapsto> below_sigma (pixel_value env img (i * STEP * Y + X - 1)))) j)" for i
  define I where "I n g \<longleftrightarrow> g = (\<lambda>i. if 0 \<le> i \<and> i < n then Some (col i) else None)" for n and g :: grid
  have "\<exists>g'. for_loop [0..p - 1] (sample_column env img p q) Map.empty = Inr g' \<and> I (p - 1 + 1) g'"
  proof (rule for_loop_upto)
    show "0 \<le> p - 1 + 1" using p by simp
    show "I 0 Map.empty" by (auto simp: I_def fun_eq_iff)
    fix i g
    assume i: "0 \<le> i" "i \<le> p - 1" and "I i g"
    then have g: "g = (\<lambda>k. if 0 \<le> k \<and> k < i then Some (col k) else None)" by (simp add: I_def)
    have "sample_column env img p q i g = Inr (g(i \<mapsto> col i))"
      unfolding col_def X_def Y_def
      using i inner [of i] bnd [of i]
      by (intro sample_column_result) (simp_all add: STEP_def X_def Y_def)
    moreover have "g(i \<mapsto> col i) = (\<lambda>k. if 0 \<le> k \<and> k < i + 1 then Some (col k) else None)"
      using i by (auto simp: g fun_eq_iff)
    ultimately show "\<exists>t'. sample_column env img p q i g = Inr t' \<and> I (i + 1) t'"
      by (simp add: I_def)
  qed
  then have loop: "for_loop [0..p - 1] (sample_column env img p q) Map.empty
      = Inr (\<lambda>i. if 0 \<le> i \<and> i < p then Some (col i) else None)"
    by (simp add: I_def)
  have lc: "sample_last_column env img p q (\<lambda>i. if 0 \<le> i \<and> i < p then Some (col i) else None)
      = Inr ((\<lambda>i. if 0 \<le> i \<and> i < p then Some (col i) else None)
          (p \<mapsto> (\<lambda>j. if 0 \<le> j \<and> j < q
              then Some (below_sigma (pixel_value env img ((img_x img - 1) * img_y img + j * STEP)))
              else None)))"
    using p last by (intro sample_last_column_result) (simp_all add: STEP_def X_def Y_def)
  have "(\<lambda>i. if 0 \<le> i \<and> i < p then Some (col i) else None)
          (p \<mapsto> (\<lambda>j. if 0 \<le> j \<and> j < q
              then Some (below_sigma (pixel_value env img ((img_x img - 1) * img_y img + j * STEP)))
              else None)) = sampled_grid env img"
    using p by (auto simp: sampled_grid_def Let_def sd col_def fun_eq_iff X_def Y_def)
  then show ?thesis
    by (simp add: sample_grid_def Let_def sd sl bindE_def loop lc)
qed

lemma sampled_grid_interior:
  assumes "0 \<le> i" "i < img_x img sdiv STEP" "0 \<le> j" "j < img_y img sdiv STEP"
  shows "cell (sampled_grid env img) i j
         = Some (below_sigma (pixel_value env img (i * STEP * img_y img + j * STEP)))"
  using assms by (simp add: sampled_grid_def cell_def Let_def)

lemma sampled_grid_boundary_row:
  assumes "0 \<le> i" "i < img_x img sdiv STEP"
  shows "cell (sampled_grid env img) i (img_y img sdiv STEP)
         = Some (below_sigma (pixel_value env img (i * STEP * img_y img + img_x img - 1)))"
  using assms by (simp add: sampled_grid_def cell_def Let_def)

lemma sampled_grid_boundary_row_square:
  assumes "img_x img = img_y img" "0 \<le> i" "i < img_x img sdiv STEP"
  shows "cell (sampled_grid env img) i (img_y img sdiv STEP)
         = Some (below_sigma (pixel_value env img (i * STEP * img_y img + (img_y img - 1))))"
  using assms sampled_grid_boundary_row [of i img env] by (simp add: algebra_simps)

lemma sampled_grid_last_column:
  assumes "0 \<le> j" "j < img_y img sdiv STEP"
  shows "cell (sampled_grid env img) (img_x img sdiv STEP) j
         = Some (below_sigma (pixel_value env img ((img_x img - 1) * img_y img + j * STEP)))"
  using assms by (simp add: sampled_grid_def cell_def Let_def)

lemma sampled_grid_corner:
  "cell (sampled_grid env img) (img_x img sdiv STEP) (img_y img sdiv STEP) = None"
  by (simp add: sampled_grid_def cell_def Let_def)

lemma sampled_grid_columns:
  "0 \<le> i \<Longrightarrow> i \<le> img_x img sdiv STEP \<Longrightarrow> sampled_grid env img i \<noteq> None"
  by (simp add: sampled_grid_def Let_def)

lemma grid_get_cell:
  "cell g i j = Some v \<Longrightarrow> grid_get env g i j = Inr v"
  by (auto simp: grid_get_def cell_def split: option.splits)

section \<open>What one thread marches\<close>

lemma below_sigma_bit: "uint (below_sigma px) < 2"
  by (simp add: below_sigma_def)

lemma sampled_grid_get:
  assumes "0 \<le> i" "i \<le> img_x img sdiv STEP" "0 \<le> j" "j \<le> img_y img sdiv STEP"
    and "i \<noteq> img_x img sdiv STEP \<or> j \<noteq> img_y img sdiv STEP"
  shows "\<exists>v. grid_get env (sampled_grid env img) i j = Inr v \<and> uint v < 2"
  using assms below_sigma_bit
  by (auto simp: grid_get_def sampled_grid_def Let_def)

lemma march_index_bits:
  assumes "grid_get env g i j = Inr a" "grid_get env g i (j + 1) = Inr b"
    "grid_get env g (i + 1) (j + 1) = Inr c" "grid_get env g (i + 1) j = Inr d"
    and "uint a < 2" "uint b < 2" "uint c < 2" "uint d < 2"
  shows "\<exists>k. march_index env g i j = Inr k \<and> uint k < CONTOUR_CONFIG_COUNT"
proof -
  define K where "K = 8 * uint a + 4 * uint b + 2 * uint c + uint d"
  have "0 \<le> uint a" "0 \<le> uint b" "0 \<le> uint c" "0 \<le> uint d" by simp_all
  then have K: "0 \<le> K" "K < 16" using assms(5-8) unfolding K_def by linarith+
  then have "uint (word_of_int K :: 8 word) = K"
    by (simp add: uint_word_of_int take_bit_eq_mod)
  then have "uint (word_of_int K :: 8 word) < CONTOUR_CONFIG_COUNT"
    using K by (simp add: CONTOUR_CONFIG_COUNT_def)
  moreover have "march_index env g i j = Inr (word_of_int K)"
    by (simp add: march_index_def assms(1-4) bindE_def K_def)
  ultimately show ?thesis by blast
qed

lemma march_cell_square:
  assumes idx: "march_index env g i j = Inr k"
    and glyph: "uint k < CONTOUR_CONFIG_COUNT" "cm (uint k) = Some gl"
      "img_x gl = n" "img_y gl = n" "n \<le> STEP"
    and cell: "0 \<le> i" "i < img_x img sdiv STEP" "0 \<le> j" "j < img_y img sdiv STEP"
  shows "\<exists>img'. march_cell env g cm i j img = Inr img'
         \<and> img_x img' = img_x img \<and> img_y img' = img_y img
         \<and> (\<forall>u v. 0 \<le> u \<and> u < n \<and> 0 \<le> v \<and> v < n \<longrightarrow>
               pixel_at img' (i * STEP + u) (j * STEP + v) = Some (pixel_value env gl (n * u + v)))"
proof -
  have cg: "cmap_get cm k = Inr gl"
    using glyph(1,2) by (simp add: cmap_get_def)
  have x: "0 \<le> img_x img" "(i + 1) * 8 \<le> img_x img"
    using cell(1,2) by (auto simp: STEP_def signed_divide_int_def sgn_if split: if_splits)
  have y: "0 \<le> img_y img" "(j + 1) * 8 \<le> img_y img"
    using cell(3,4) by (auto simp: STEP_def signed_divide_int_def sgn_if split: if_splits)
  from march_update_square [OF glyph(3,4), of "i * STEP" "j * STEP" img env]
  obtain img' where img': "march_update env img gl (i * STEP) (j * STEP) = Inr img'"
    "img_x img' = img_x img" "img_y img' = img_y img"
    "\<And>u v. 0 \<le> u \<Longrightarrow> u < n \<Longrightarrow> 0 \<le> v \<Longrightarrow> v < n \<Longrightarrow>
       img_data img' ((i * STEP + u) * img_y img + j * STEP + v) = Some (pixel_value env gl (n * u + v))"
    using x y cell glyph(5) by (auto simp: STEP_def)
  have "pixel_at img' (i * STEP + u) (j * STEP + v) = Some (pixel_value env gl (n * u + v))"
    if "0 \<le> u" "u < n" "0 \<le> v" "v < n" for u v
    using img'(4) [OF that] img'(3) by (simp add: pixel_at_def add.assoc)
  then show ?thesis
    using img'(1,2,3) by (auto simp: march_cell_def idx cg bindE_def)
qed

lemma march_cell_outside_table:
  assumes "march_index env g i j = Inr k" "CONTOUR_CONFIG_COUNT \<le> uint k"
  shows "march_cell env g cm i j img = Inl OutOfBounds"
  using assms by (simp add: march_cell_def bindE_def cmap_get_def)

text \<open>A cell other than the last one: its four corners were sampled from the image.\<close>

lemma march_cell_sampled:
  assumes table: "\<And>k. 0 \<le> k \<Longrightarrow> k < CONTOUR_CONFIG_COUNT \<Longrightarrow>
      \<exists>gl. cm k = Some gl \<and> img_x gl = img_y gl \<and> img_x gl \<le> STEP"
    and t: "img_x t = img_x img" "img_y t = img_y img"
    and cell: "0 \<le> i" "i < img_x img sdiv STEP" "0 \<le> j" "j < img_y img sdiv STEP"
    and other: "i \<noteq> img_x img sdiv STEP - 1 \<or> j \<noteq> img_y img sdiv STEP - 1"
  shows "\<exists>t'. march_cell env (sampled_grid env img) cm i j t = Inr t'
         \<and> img_x t' = img_x img \<and> img_y t' = img_y img"
proof -
  let ?g = "sampled_grid env img"
  obtain a where a: "grid_get env ?g i j = Inr a" "uint a < 2"
    using sampled_grid_get [of i img j env] cell by auto
  obtain b where b: "grid_get env ?g i (j + 1) = Inr b" "uint b < 2"
    using sampled_grid_get [of i img "j + 1" env] cell by auto
  obtain c where c: "grid_get env ?g (i + 1) (j + 1) = Inr c" "uint c < 2"
    using sampled_grid_get [of "i + 1" img "j + 1" env] cell other by auto
  obtain d where d: "grid_get env ?g (i + 1) j = Inr d" "uint d < 2"
    using sampled_grid_get [of "i + 1" img j env] cell by auto
  from march_index_bits [OF a(1) b(1) c(1) d(1) a(2) b(2) c(2) d(2)]
  obtain k where k: "march_index env ?g i j = Inr k" "uint k < CONTOUR_CONFIG_COUNT" by blast
  from table [of "uint k"] k(2) obtain gl where
    gl: "cm (uint k) = Some gl" "img_x gl = img_y gl" "img_x gl \<le> STEP" by auto
  have "\<exists>img'. march_cell env ?g cm i j t = Inr img'
         \<and> img_x img' = img_x t \<and> img_y img' = img_y t
         \<and> (\<forall>u v. 0 \<le> u \<and> u < img_y gl \<and> 0 \<le> v \<and> v < img_y gl \<longrightarrow>
               pixel_at img' (i * STEP + u) (j * STEP + v) = Some (pixel_value env gl (img_y gl * u + v)))"
    using k gl cell t
    by (intro march_cell_square [where k = k and gl = gl and n = "img_y gl"]) simp_all
  then show ?thesis using t by auto
qed

lemma march_cells_sampled:
  assumes table: "\<And>k. 0 \<le> k \<Longrightarrow> k < CONTOUR_CONFIG_COUNT \<Longrightarrow>
      \<exists>gl. cm k = Some gl \<and> img_x gl = img_y gl \<and> img_x gl \<le> STEP"
    and t: "img_x t = img_x img" "img_y t = img_y img"
    and i: "0 \<le> i" "i < img_x img sdiv STEP"
    and hi: "- 1 \<le> hi" "hi < img_y img sdiv STEP"
    and other: "i \<noteq> img_x img sdiv STEP - 1 \<or> hi < img_y img sdiv STEP - 1"
  shows "\<exists>t'. for_loop [0..hi] (\<lambda>j. march_cell env (sampled_grid env img) cm i j) t = Inr t'
         \<and> img_x t' = img_x img \<and> img_y t' = img_y img"
proof -
  define I where "I j u \<longleftrightarrow> img_x u = img_x img \<and> img_y u = img_y img" for j :: int and u :: ppm_image
  have "\<exists>t'. for_loop [0..hi] (\<lambda>j. march_cell env (sampled_grid env img) cm i j) t = Inr t'
      \<and> I (hi + 1) t'"
  proof (rule for_loop_upto)
    show "0 \<le> hi + 1" using hi by simp
    show "I 0 t" using t by (simp add: I_def)
    fix j u
    assume j: "0 \<le> j" "j \<le> hi" and "I j u"
    then have u: "img_x u = img_x img" "img_y u = img_y img" by (simp_all add: I_def)
    have "\<exists>t'. march_cell env (sampled_grid env img) cm i j u = Inr t'
         \<and> img_x t' = img_x img \<and> img_y t' = img_y img"
      using table u i j hi other by (intro march_cell_sampled) auto
    then show "\<exists>t'. march_cell env (sampled_grid env img) cm i j u = Inr t' \<and> I (j + 1) t'"
      by (simp add: I_def)
  qed
  then show ?thesis by (simp add: I_def)
qed

lemma march_columns_sampled:
  assumes table: "\<And>k. 0 \<le> k \<Longrightarrow> k < CONTOUR_CONFIG_COUNT \<Longrightarrow>
      \<exists>gl. cm k = Some gl \<and> img_x gl = img_y gl \<and> img_x gl \<le> STEP"
    and p: "1 \<le> img_x img sdiv STEP" and q: "1 \<le> img_y img sdiv STEP"
  shows "\<exists>t'. for_loop [0..img_x img sdiv STEP - 2] (\<lambda>i img1.
           for_loop [0..img_y img sdiv STEP - 1]
             (\<lambda>j. march_cell env (sampled_grid env img) cm i j) img1) img = Inr t'
         \<and> img_x t' = img_x img \<and> img_y t' = img_y img"
proof -
  define I where "I i u \<longleftrightarrow> img_x u = img_x img \<and> img_y u = img_y img" for i :: int and u :: ppm_image
  have "\<exists>t'. for_loop [0..img_x img sdiv STEP - 2] (\<lambda>i img1.
           for_loop [0..img_y img sdiv STEP - 1]
             (\<lambda>j. march_cell env (sampled_grid env img) cm i j) img1) img = Inr t'
      \<and> I (img_x img sdiv STEP - 2 + 1) t'"
  proof (rule for_loop_upto)
    show "0 \<le> img_x img sdiv STEP - 2 + 1" using p by simp
    show "I 0 img" by (simp add: I_def)
    fix i u
    assume i: "0 \<le> i" "i \<le> img_x img sdiv STEP - 2" and "I i u"
    then have u: "img_x u = img_x img" "img_y u = img_y img" by (simp_all add: I_def)
    have "\<exists>t'. for_loop [0..img_y img sdiv STEP - 1]
             (\<lambda>j. march_cell env (sampled_grid env img) cm i j) u = Inr t'
         \<and> img_x t' = img_x img \<and> img_y t' = img_y img"
      using table u i q by (intro march_cells_sampled) auto
    then show "\<exists>t'. for_loop [0..img_y img sdiv STEP - 1]
             (\<lambda>j. march_cell env (sampled_grid env img) cm i j) u = Inr t' \<and> I (i + 1) t'"
      by (simp add: I_def)
  qed
  then show ?thesis by (simp add: I_def)
qed

text \<open>
  One thread marches every cell; the last one is \<open>(p - 1, q - 1)\<close>, and what the run
  returns is decided there.
\<close>

lemma march_one_thread_last_cell:
  assumes table: "\<And>k. 0 \<le> k \<Longrightarrow> k < CONTOUR_CONFIG_COUNT \<Longrightarrow>
      \<exists>gl. cm k = Some gl \<and> img_x gl = img_y gl \<and> img_x gl \<le> STEP"
    and x: "8 \<le> img_x img" "img_x img < 2 ^ 31" and y: "8 \<le> img_y img"
  shows "\<exists>t. img_x t = img_x img \<and> img_y t = img_y img
     \<and> march env img (sampled_grid env img) cm 0 1
       = march_cell env (sampled_grid env img) cm
           (img_x img sdiv STEP - 1) (img_y img sdiv STEP - 1) t"
proof -
  define p where "p = img_x img sdiv STEP"
  define q where "q = img_y img sdiv STEP"
  let ?g = "sampled_grid env img"
  have pq: "1 \<le> p" "1 \<le> q" "p < 2 ^ 53"
    using x y by (simp_all add: p_def q_def STEP_def sdiv_nonneg)
  have sl: "get_slice 0 1 p = Inr \<lparr>start = 0, end' = p\<rparr>"
    using pq by (simp add: get_slice_def thread_get_slice_single)
  from march_columns_sampled [where img = img and env = env and cm = cm, OF table] pq obtain t1 where
    t1: "for_loop [0..p - 2] (\<lambda>i img1.
           for_loop [0..q - 1] (\<lambda>j. march_cell env ?g cm i j) img1) img = Inr t1"
      "img_x t1 = img_x img" "img_y t1 = img_y img"
    unfolding p_def q_def by blast
  from march_cells_sampled [where i = "p - 1" and hi = "q - 2" and env = env and cm = cm and t = t1 and img = img, OF table t1(2,3)] pq obtain t2 where
    t2: "for_loop [0..q - 2] (\<lambda>j. march_cell env ?g cm (p - 1) j) t1 = Inr t2"
      "img_x t2 = img_x img" "img_y t2 = img_y img"
    unfolding p_def q_def by auto
  have up: "[0..p - 1] = [0..p - 2] @ [p - 1]" "[0..q - 1] = [0..q - 2] @ [q - 1]"
    using pq upto_rec2 [of 0 "p - 1"] upto_rec2 [of 0 "q - 1"] by simp_all
  have single: "for_loop [k] body u = body k u" for k and body :: "int \<Rightarrow> ppm_image \<Rightarrow> error + ppm_image" and u
    by (cases "body k u") (simp_all add: bindE_def)
  have "for_loop [0..q - 1] (\<lambda>j. march_cell env ?g cm (p - 1) j) t1
      = march_cell env ?g cm (p - 1) (q - 1) t2"
    by (simp only: up(2) for_loop_append t2(1) bindE_def sum.case single)
  moreover have "for_loop [0..p - 1] (\<lambda>i img1.
           for_loop [0..q - 1] (\<lambda>j. march_cell env ?g cm i j) img1) img
      = for_loop [0..q - 1] (\<lambda>j. march_cell env ?g cm (p - 1) j) t1"
    by (simp only: up(1) for_loop_append t1(1) bindE_def sum.case single)
  ultimately have "march env img ?g cm 0 1 = march_cell env ?g cm (p - 1) (q - 1) t2"
    unfolding march_def Let_def p_def [symmetric] q_def [symmetric]
    by (simp add: sl bindE_def)
  then show ?thesis using t2(2,3) by (auto simp: p_def q_def)
qed

lemma sampled_grid_corner_index:
  fixes img :: ppm_image
  defines "p \<equiv> img_x img sdiv STEP" and "q \<equiv> img_y img sdiv STEP"
  assumes "8 \<le> img_x img" "8 \<le> img_y img"
  shows "march_index env (sampled_grid env img) (p - 1) (q - 1) = Inr (word_of_int
         (8 * uint (below_sigma (pixel_value env img ((p - 1) * STEP * img_y img + (q - 1) * STEP)))
          + 4 * uint (below_sigma (pixel_value env img ((p - 1) * STEP * img_y img + img_x img - 1)))
          + 2 * uint (heap_cell env p q)
          + uint (below_sigma (pixel_value env img ((img_x img - 1) * img_y img + (q - 1) * STEP)))))"
proof -
  let ?g = "sampled_grid env img"
  have pq: "1 \<le> p" "1 \<le> q"
    using assms(3,4) by (simp_all add: p_def q_def STEP_def sdiv_nonneg)
  have a: "grid_get env ?g (p - 1) (q - 1)
      = Inr (below_sigma (pixel_value env img ((p - 1) * STEP * img_y img + (q - 1) * STEP)))"
    using pq by (intro grid_get_cell sampled_grid_interior) (simp_all add: p_def q_def)
  have b: "grid_get env ?g (p - 1) q
      = Inr (below_sigma (pixel_value env img ((p - 1) * STEP * img_y img + img_x img - 1)))"
    unfolding q_def using pq by (intro grid_get_cell sampled_grid_boundary_row) (simp_all add: p_def)
  have d: "grid_get env ?g p (q - 1)
      = Inr (below_sigma (pixel_value env img ((img_x img - 1) * img_y img + (q - 1) * STEP)))"
    unfolding p_def using pq by (intro grid_get_cell sampled_grid_last_column) (simp_all add: q_def)
  have c: "grid_get env ?g p q = Inr (heap_cell env p q)"
    using pq sampled_grid_columns [of p img env] sampled_grid_corner [of env img]
    by (intro grid_get_unwritten) (simp_all add: p_def q_def)
  show ?thesis using a b c d by (simp add: march_index_def bindE_def)
qed

text \<open>
  One thread, an image at least 8 wide and at least as high as wide, a table of sixteen
  square glyphs no larger than a cell. The sampling stage returns a grid without the cell
  \<open>(p, q)\<close>. The marching stage computes the index of its last cell, \<open>(p - 1, q - 1)\<close>, from
  three samples of the image and from \<open>heap_cell env p q\<close>, the byte that the allocation of
  column \<open>p\<close> held at offset \<open>q\<close>. When the index is below 16 the glyph with that index is
  what the cell of the output holds; otherwise the index is outside the table.
\<close>

lemma one_thread_reads_corner:
  fixes img :: ppm_image and env :: environment
  defines "p \<equiv> img_x img sdiv STEP" and "q \<equiv> img_y img sdiv STEP"
  defines "k \<equiv> (word_of_int
         (8 * uint (below_sigma (pixel_value env img ((p - 1) * STEP * img_y img + (q - 1) * STEP)))
          + 4 * uint (below_sigma (pixel_value env img ((p - 1) * STEP * img_y img + img_x img - 1)))
          + 2 * uint (heap_cell env p q)
          + uint (below_sigma (pixel_value env img ((img_x img - 1) * img_y img + (q - 1) * STEP))))
         :: 8 word)"
  assumes table: "\<And>k. 0 \<le> k \<Longrightarrow> k < CONTOUR_CONFIG_COUNT \<Longrightarrow>
      \<exists>gl. cm k = Some gl \<and> img_x gl = img_y gl \<and> img_x gl \<le> STEP"
    and x: "8 \<le> img_x img" "img_x img < 2 ^ 31" and y: "img_x img \<le> img_y img"
  shows "\<exists>g. sample_grid env Map.empty img 0 1 = Inr g \<and> cell g p q = None
     \<and> march_index env g (p - 1) (q - 1) = Inr k
     \<and> (uint k < CONTOUR_CONFIG_COUNT \<longrightarrow>
          (\<exists>img' gl. march env img g cm 0 1 = Inr img' \<and> cm (uint k) = Some gl
             \<and> (\<forall>u v. 0 \<le> u \<and> u < img_x gl \<and> 0 \<le> v \<and> v < img_x gl \<longrightarrow>
                   pixel_at img' ((p - 1) * STEP + u) ((q - 1) * STEP + v)
                   = Some (pixel_value env gl (img_x gl * u + v)))))
     \<and> (CONTOUR_CONFIG_COUNT \<le> uint k \<longrightarrow> march env img g cm 0 1 = Inl OutOfBounds)"
proof -
  let ?g = "sampled_grid env img"
  have y8: "8 \<le> img_y img" using x y by simp
  have pq: "1 \<le> p" "1 \<le> q"
    using x y8 by (simp_all add: p_def q_def STEP_def sdiv_nonneg)
  have sg: "sample_grid env Map.empty img 0 1 = Inr ?g"
    using x y by (rule sample_grid_one_thread)
  have corner: "cell ?g p q = None" by (simp add: p_def q_def sampled_grid_corner)
  have idx: "march_index env ?g (p - 1) (q - 1) = Inr k"
    unfolding k_def p_def q_def using x(1) y8 by (rule sampled_grid_corner_index)
  from march_one_thread_last_cell [where cm = cm and img = img and env = env, OF table x y8]
  obtain t where t: "img_x t = img_x img" "img_y t = img_y img"
    "march env img ?g cm 0 1 = march_cell env ?g cm (p - 1) (q - 1) t"
    unfolding p_def q_def by blast
  have small: "\<exists>img' gl. march env img ?g cm 0 1 = Inr img' \<and> cm (uint k) = Some gl
             \<and> (\<forall>u v. 0 \<le> u \<and> u < img_x gl \<and> 0 \<le> v \<and> v < img_x gl \<longrightarrow>
                   pixel_at img' ((p - 1) * STEP + u) ((q - 1) * STEP + v)
                   = Some (pixel_value env gl (img_x gl * u + v)))"
    if "uint k < CONTOUR_CONFIG_COUNT"
  proof -
    from table [of "uint k"] that obtain gl where
      gl: "cm (uint k) = Some gl" "img_x gl = img_y gl" "img_x gl \<le> STEP" by auto
    have "\<exists>img'. march_cell env ?g cm (p - 1) (q - 1) t = Inr img'
         \<and> img_x img' = img_x t \<and> img_y img' = img_y t
         \<and> (\<forall>u v. 0 \<le> u \<and> u < img_x gl \<and> 0 \<le> v \<and> v < img_x gl \<longrightarrow>
               pixel_at img' ((p - 1) * STEP + u) ((q - 1) * STEP + v)
               = Some (pixel_value env gl (img_x gl * u + v)))"
      using idx that gl pq t(1,2)
      by (intro march_cell_square [where k = k and gl = gl and n = "img_x gl"])
         (simp_all add: p_def q_def)
    then show ?thesis using gl(1) by (auto simp: t(3))
  qed
  have large: "march env img ?g cm 0 1 = Inl OutOfBounds" if "CONTOUR_CONFIG_COUNT \<le> uint k"
    using idx that by (simp add: t(3) march_cell_outside_table)
  show ?thesis using sg corner idx small large by blast
qed

lemma march_of_49:
  "0 \<le> tid \<Longrightarrow> tid \<le> 48 \<Longrightarrow> march env black8 g cm tid 49 = Inr black8"
  by (simp add: march_def Let_def get_slice_49_1 bindE_def)

section \<open>The slices of seven workers over a range of 61\<close>

text \<open>
  Claim C1 says that the slices of ordinals \<open>0 .. totalThreads - 1\<close> tile
  \<open>[0, rangeLength)\<close>. With seven workers and a range of 61 (an image 488 pixels wide has
  61 grid columns) the quotient \<open>61 / 7\<close> is rounded down, seven times that double is
  below 61, and the last slice ends at 60: the slices are contiguous and disjoint, but
  index 60 belongs to none of them.
\<close>

theorem thread_get_slice_7_61:
  "thread_get_slice 0 7 61 = Some \<lparr>start = 0, end' = 8\<rparr>
   \<and> thread_get_slice 1 7 61 = Some \<lparr>start = 8, end' = 17\<rparr>
   \<and> thread_get_slice 2 7 61 = Some \<lparr>start = 17, end' = 26\<rparr>
   \<and> thread_get_slice 3 7 61 = Some \<lparr>start = 26, end' = 34\<rparr>
   \<and> thread_get_slice 4 7 61 = Some \<lparr>start = 34, end' = 43\<rparr>
   \<and> thread_get_slice 5 7 61 = Some \<lparr>start = 43, end' = 52\<rparr>
   \<and> thread_get_slice 6 7 61 = Some \<lparr>start = 52, end' = 60\<rparr>"
  by code_simp

section \<open>The code against the contract\<close>

text \<open>
  Claim C4 says that \<open>thread_get_slice\<close> returns the bounds of the contract. For the last
  of eleven workers over a range of 15 the contract gives \<open>[13, 15)\<close>; the code rounds
  \<open>15 / 11\<close> down to a double, eleven times which is below 15, and returns \<open>[13, 14)\<close>.
\<close>

theorem thread_get_slice_10_11_15:
  "thread_get_slice 10 11 15 = Some \<lparr>start = 13, end' = 14\<rparr>
   \<and> slice_contract 10 11 15 = \<lparr>start = 13, end' = 15\<rparr>"
  by code_simp

section \<open>The corner of the grid\<close>

text \<open>
  Claim C2 says that for every image with at least one grid column and one grid row the
  sampling stage never writes the cell \<open>(p, q)\<close>, and that the marching stage reads it, as
  \<^verbatim>\<open>grid[i + 1][j + 1]\<close> for the cell \<open>(p - 1, q - 1)\<close>. The first half holds of every call
  of \<open>sample_grid\<close>, for every thread and every number of threads (lemma
  \<open>sample_grid_corner\<close>). The second half holds of a run in which the slice of some thread
  contains column \<open>p - 1\<close>; with one thread it does, for every image at least 8 wide and at
  least as high as wide (lemma \<open>one_thread_reads_corner\<close>). On the black image of 8 by 8
  pixels and one thread the cell \<open>(1, 1)\<close> is unwritten, and \<open>march\<close> stamps glyph 13 when
  the allocation holds 0 there, glyph 15 when it holds 1, and leaves the glyph table when
  it holds 2. With 49 threads on the same image every slice of the one grid column is
  empty: the last thread allocates column 1 and writes \<^verbatim>\<open>grid[1][0]\<close> only, its \<open>march\<close>
  returns the image as it was, and the whole run ends without an error although the
  allocation holds 2: no thread reads \<^verbatim>\<open>grid[1][1]\<close>.
\<close>

theorem corner_cell_read_by_one_thread_only:
  "cell_of (sample_grid (test_env black8 0) Map.empty black8 0 1) 1 1 = None
   \<and> pixel_of (marched (test_env black8 0) black8 test_cmap 0 1
         (sample_grid (test_env black8 0) Map.empty black8 0 1)) 0 0
       = Some \<lparr>red = 13, green = 0, blue = 0\<rparr>
   \<and> pixel_of (marched (test_env black8 1) black8 test_cmap 0 1
         (sample_grid (test_env black8 1) Map.empty black8 0 1)) 0 0
       = Some \<lparr>red = 15, green = 0, blue = 0\<rparr>
   \<and> error_of (marched (test_env black8 2) black8 test_cmap 0 1
         (sample_grid (test_env black8 2) Map.empty black8 0 1)) = Some OutOfBounds
   \<and> sample_grid (test_env black8 2) Map.empty black8 48 49
       = Inr (Map.empty(1 \<mapsto> Map.empty(0 \<mapsto> 1)))
   \<and> march (test_env black8 2) black8 (Map.empty(1 \<mapsto> Map.empty(0 \<mapsto> 1))) test_cmap 48 49
       = Inr black8
   \<and> error_of (pipeline (test_env black8 2) ''in.ppm'' ''out.ppm'' 49) = None"
proof (intro conjI)
  show "cell_of (sample_grid (test_env black8 0) Map.empty black8 0 1) 1 1 = None"
    by code_simp
  show "pixel_of (marched (test_env black8 0) black8 test_cmap 0 1
         (sample_grid (test_env black8 0) Map.empty black8 0 1)) 0 0
       = Some \<lparr>red = 13, green = 0, blue = 0\<rparr>"
    by code_simp
  show "pixel_of (marched (test_env black8 1) black8 test_cmap 0 1
         (sample_grid (test_env black8 1) Map.empty black8 0 1)) 0 0
       = Some \<lparr>red = 15, green = 0, blue = 0\<rparr>"
    by code_simp
  show "error_of (marched (test_env black8 2) black8 test_cmap 0 1
         (sample_grid (test_env black8 2) Map.empty black8 0 1)) = Some OutOfBounds"
    by code_simp
  show "sample_grid (test_env black8 2) Map.empty black8 48 49
       = Inr (Map.empty(1 \<mapsto> Map.empty(0 \<mapsto> 1)))"
    by (simp add: sample_grid_def get_slice_49_1 bindE_def Let_def sample_last_column_black8)
  show "march (test_env black8 2) black8 (Map.empty(1 \<mapsto> Map.empty(0 \<mapsto> 1))) test_cmap 48 49
       = Inr black8"
    by (simp add: march_of_49)
  from pipeline_of_49 [of 2] obtain cm g where
    "pipeline (test_env black8 2) ''in.ppm'' ''out.ppm'' 49
     = Inr (idle_machine cm g 1 (Map.empty(''out.ppm'' \<mapsto> black8)))" by blast
  then show "error_of (pipeline (test_env black8 2) ''in.ppm'' ''out.ppm'' 49) = None"
    by (simp add: error_of_def)
qed

section \<open>An image that fits the target resolution\<close>

text \<open>
  Claim C8. When the decoded image is at most \<^verbatim>\<open>RESCALE_X\<close> wide and \<^verbatim>\<open>RESCALE_Y\<close>
  high, the thread that reads it stores the same address in \<^verbatim>\<open>shared->image\<close> and
  \<^verbatim>\<open>shared->scaled\<close> and adds no other image to the store, and \<open>rescale_image\<close> returns
  the store as it found it, for every thread ordinal and every number of threads.
\<close>

theorem small_image_is_aliased:
  assumes "sh_image (shared m) = None"
    and "img_x (read_ppm env (sh_filename_in (shared m))) \<le> RESCALE_X env"
    and "img_y (read_ppm env (sh_filename_in (shared m))) \<le> RESCALE_Y env"
  shows "sh_image (shared (image_read env m)) = Some 0
         \<and> sh_scaled (shared (image_read env m)) = sh_image (shared (image_read env m))
         \<and> objects (image_read env m) = (objects m)(0 \<mapsto> read_ppm env (sh_filename_in (shared m)))
         \<and> (\<forall>tid nthreads.
               rescale_image env 0 0 tid nthreads (objects (image_read env m))
                 = Inr (objects (image_read env m)))
         \<and> (\<forall>tid. worker_rescale env tid (image_read env m) = Inr (image_read env m))"
  using assms
  by (simp add: image_read_def Let_def rescale_image_def worker_rescale_def bindE_def)

theorem small_image_is_aliased_witness:
  "sh_image (shared (image_read (test_env black8 0) (initial_machine ''in.ppm'' ''out.ppm'' 4))) = Some 0
   \<and> sh_scaled (shared (image_read (test_env black8 0) (initial_machine ''in.ppm'' ''out.ppm'' 4))) = Some 0
   \<and> worker_rescale (test_env black8 0) 3
        (image_read (test_env black8 0) (initial_machine ''in.ppm'' ''out.ppm'' 4))
      = Inr (image_read (test_env black8 0) (initial_machine ''in.ppm'' ''out.ppm'' 4))"
  using small_image_is_aliased [of "initial_machine ''in.ppm'' ''out.ppm'' 4" "test_env black8 0"]
  by (simp add: initial_machine_def test_env_def test_read_ppm_def solid_image_def)

section \<open>The boundary sample of a column\<close>

text \<open>
  Claim C5 says that \<^verbatim>\<open>grid[i][q]\<close> is 1 iff the pixel at \<open>(i * STEP, height - 1)\<close> has a
  luminance of at most \<^verbatim>\<open>SIGMA\<close>. The code reads \<^verbatim>\<open>data[i * STEP * image->y + image->x - 1]\<close>,
  the coordinate \<open>(i * STEP, width - 1)\<close>. In the image 8 wide and 16 high the pixel at
  \<open>(0, 15)\<close> is black, so the claim gives \<^verbatim>\<open>grid[0][2] = 1\<close>; the code reads the white
  pixel at \<open>(0, 7)\<close> and stores 0. In the image 16 wide and 1 high the index of the boundary
  sample of column 1 is \<open>8 + 15 = 23\<close>, outside the 16 pixels of the image. Where the image
  is square the two coordinates are the same (lemma \<open>sampled_grid_boundary_row_square\<close>),
  and the interior cells and column \<open>p\<close> are sampled as claim C5 says (lemmas
  \<open>sample_grid_one_thread\<close>, \<open>sampled_grid_interior\<close>, \<open>sampled_grid_last_column\<close>).
\<close>

theorem sample_grid_boundary_of_tall_image:
  "cell_of (sample_grid (test_env tall_image 0) Map.empty tall_image 0 1) 0 2 = Some 0
   \<and> map_option below_sigma (pixel_at tall_image (0 * STEP) (img_y tall_image - 1)) = Some 1
   \<and> error_of (sample_grid (test_env wide_image 0) Map.empty wide_image 0 1) = Some OutOfBounds"
  by code_simp

section \<open>A glyph that is not square\<close>

text \<open>
  Claim C6 says that the marching stage copies every pixel of the selected glyph to the
  output, each destination pixel being the corresponding glyph pixel. \<^verbatim>\<open>march_update\<close>
  reads the glyph at \<^verbatim>\<open>c->x * i + j\<close> for \<^verbatim>\<open>i < c->x\<close> and \<^verbatim>\<open>j < c->y\<close>. For a glyph with
  \<open>x = 2\<close>, \<open>y = 3\<close>, whose six pixels carry their index in the green component, the six
  destinations receive the elements 0, 1, 2, 2, 3, 4: element 2 is copied twice and
  element 5 is not copied.
\<close>

theorem march_cell_oblong_glyph:
  "map (\<lambda>(a, b). map_option green
        (pixel_of (march_cell (test_env black8 0) zero_grid oblong_cmap 0 0 black8) a b))
     [(0, 0), (0, 1), (0, 2), (1, 0), (1, 1), (1, 2)]
   = [Some 0, Some 1, Some 2, Some 2, Some 3, Some 4]
   \<and> map (\<lambda>k. map_option green (img_data (numbered_image 2 3 0) k)) [0, 1, 2, 3, 4, 5]
   = [Some 0, Some 1, Some 2, Some 3, Some 4, Some 5]"
  by code_simp

section \<open>The solid black image of 16 by 16 pixels\<close>

text \<open>
  Claim C7 says that sampling this image gives a 3 by 3 grid whose cells are all 1 and that
  every interior cell gets the index 15. Eight cells are 1, but the cell \<open>(2, 2)\<close> is never
  written; three interior cells get the index 15, and the cell \<open>(1, 1)\<close>, which reads
  \<^verbatim>\<open>grid[2][2]\<close>, gets 13 where the allocation holds a 0 there.
\<close>

theorem black_16_corner_and_index:
  "map (\<lambda>(i, j). cell_of (sample_grid (test_env (solid_image 16 16 black) 0) Map.empty
          (solid_image 16 16 black) 0 1) i j)
     [(0, 0), (0, 1), (0, 2), (1, 0), (1, 1), (1, 2), (2, 0), (2, 1), (2, 2)]
   = [Some 1, Some 1, Some 1, Some 1, Some 1, Some 1, Some 1, Some 1, None]
   \<and> map (\<lambda>(i, j). index_of (test_env (solid_image 16 16 black) 0)
          (sample_grid (test_env (solid_image 16 16 black) 0) Map.empty
             (solid_image 16 16 black) 0 1) i j)
     [(0, 0), (0, 1), (1, 0), (1, 1)]
   = [Inr 15, Inr 15, Inr 15, Inr 13]"
  by code_simp

section \<open>Two runs on the same input\<close>

text \<open>
  Claim C9 says that two runs on the same image with the same number of threads write the
  same output. For the black image of 8 by 8 pixels and one thread, the glyph stamped on
  the only cell is chosen by the unwritten byte \<^verbatim>\<open>grid[1][1]\<close>: glyph 13 when the
  allocation holds 0 there, glyph 15 when it holds 1; when it holds 2 the index is 17, and
  the table has 16 glyphs.
\<close>

theorem pipeline_depends_on_unwritten_byte:
  "output_pixel ''out.ppm'' (pipeline (test_env black8 0) ''in.ppm'' ''out.ppm'' 1) 0 0
     = Some \<lparr>red = 13, green = 0, blue = 0\<rparr>
   \<and> output_pixel ''out.ppm'' (pipeline (test_env black8 1) ''in.ppm'' ''out.ppm'' 1) 0 0
     = Some \<lparr>red = 15, green = 0, blue = 0\<rparr>
   \<and> error_of (pipeline (test_env black8 2) ''in.ppm'' ''out.ppm'' 1) = Some OutOfBounds"
  by code_simp

section \<open>One thread against 49 threads\<close>

text \<open>
  Claim C3 says that the output does not depend on the number of threads. On the black
  image of 8 by 8 pixels, with the same contents of unwritten memory, one thread stamps
  glyph 13 on the only cell: the output's first pixel is the glyph's. With 49 threads no
  slice holds the one grid column, nothing is stamped, and the output is the input image.
\<close>

theorem one_thread_and_49_threads_differ:
  "output_pixel ''out.ppm'' (pipeline (test_env black8 0) ''in.ppm'' ''out.ppm'' 1) 0 0
     = Some \<lparr>red = 13, green = 0, blue = 0\<rparr>
   \<and> output_pixel ''out.ppm'' (pipeline (test_env black8 0) ''in.ppm'' ''out.ppm'' 49) 0 0
     = Some \<lparr>red = 0, green = 0, blue = 0\<rparr>"
proof
  show "output_pixel ''out.ppm'' (pipeline (test_env black8 0) ''in.ppm'' ''out.ppm'' 1) 0 0
     = Some \<lparr>red = 13, green = 0, blue = 0\<rparr>"
    by code_simp
  from pipeline_of_49 [of 0] obtain cm g where
    "pipeline (test_env black8 0) ''in.ppm'' ''out.ppm'' 49
     = Inr (idle_machine cm g 1 (Map.empty(''out.ppm'' \<mapsto> black8)))" by blast
  then show "output_pixel ''out.ppm'' (pipeline (test_env black8 0) ''in.ppm'' ''out.ppm'' 49) 0 0
     = Some \<lparr>red = 0, green = 0, blue = 0\<rparr>"
    by (simp add: output_pixel_def output_image_def idle_machine_def pixel_at_def black8_def
        solid_image_def black_def)
qed

end
